theory Spec2Isabelle
  imports Complex_Main "HOL-Library.Word" "HOL-Library.Sublist"
begin

section \<open>The MSE video stream component as an event-driven state machine\<close>

text \<open>
  This theory embeds the connection logic of \<^verbatim>\<open>src/MSEVideoStream.js\<close>: the body of the
  component's main effect with its closures \<^verbatim>\<open>cleanup\<close>, \<^verbatim>\<open>reconnect\<close>,
  \<^verbatim>\<open>startStalledCheck\<close>, \<^verbatim>\<open>trimBuffer\<close>, \<^verbatim>\<open>appendData\<close>, \<^verbatim>\<open>setupSourceBuffer\<close>,
  \<^verbatim>\<open>setupMSE\<close> and \<^verbatim>\<open>connect\<close>, the four WebSocket handlers, the two timer callbacks,
  the \<^verbatim>\<open>updateend\<close> and \<^verbatim>\<open>sourceopen\<close> listeners, and \<^verbatim>\<open>getSupportedCodecs\<close>.
  The second variant of \<^verbatim>\<open>reconnect\<close> in \<^verbatim>\<open>src/MSEVideoStream.tsx\<close> (the one that
  records \<^verbatim>\<open>connectTSRef\<close>) is embedded next to it.

  JavaScript runs each handler to completion on one thread, so a handler is a function
  from the world before to the world after. What a handler reads from the host
  (the clock, the answers of the SourceBuffer, the media element) is passed in as a
  record of readings, so that every behaviour of the host is covered.
\<close>

subsection \<open>Strings\<close>

text \<open>\<^verbatim>\<open>String.prototype.startsWith\<close>, \<^verbatim>\<open>substring(n)\<close>, \<^verbatim>\<open>includes\<close> and
  \<^verbatim>\<open>Array.prototype.join()\<close> with its default separator.\<close>

definition startsWith :: "string \<Rightarrow> string \<Rightarrow> bool" where
  "startsWith s p = prefix p s"

definition substring :: "string \<Rightarrow> nat \<Rightarrow> string" where
  "substring s n = drop n s"

fun includes_str :: "string \<Rightarrow> string \<Rightarrow> bool" where
  "includes_str [] p = (p = [])"
| "includes_str (c # cs) p = (prefix p (c # cs) \<or> includes_str cs p)"

fun join :: "string list \<Rightarrow> string" where
  "join [] = []"
| "join [x] = x"
| "join (x # y # ys) = x @ '','' @ join (y # ys)"

subsection \<open>Data\<close>

type_synonym byte = "8 word"
type_synonym bytes = "byte list"

text \<open>\<^verbatim>\<open>state.buffer\<close>: the arena \<^verbatim>\<open>data\<close> (a \<^verbatim>\<open>Uint8Array\<close>, here its cells by index
  and its fixed \<^verbatim>\<open>data.length\<close>) and the logical \<^verbatim>\<open>length\<close> (named \<open>buf_length\<close>;
  \<open>length\<close> is the list function).\<close>

record mse_buffer =
  data :: "nat \<Rightarrow> byte"
  data_length :: nat
  buf_length :: nat

text \<open>\<^verbatim>\<open>stateRef.current\<close>. Object references are identities (natural numbers) into the
  stores of the world below; \<open>None\<close> is \<^verbatim>\<open>null\<close>. \<open>sbUpdateHandler\<close> holds the
  identity of the SourceBuffer its closure captured. Timer handles of a browser are
  positive, so the truthiness tests of the source on them are tests for \<open>None\<close>.\<close>

record state =
  ws :: "nat option"
  ms :: "nat option"
  sb :: "nat option"
  sbUpdateHandler :: "nat option"
  buffer :: mse_buffer
  lastDataTime :: int
  reconnectTimer :: "nat option"
  stalledCheckTimer :: "nat option"
  isMounted :: bool
  isReconnecting :: bool

text \<open>A WebSocket: which of its four handler slots are set (each slot only ever holds
  the closure \<^verbatim>\<open>connect\<close> made for this socket), whether its close event was
  dispatched (a socket dispatches nothing after that), and the objects passed to
  \<^verbatim>\<open>JSON.stringify\<close> and \<^verbatim>\<open>send\<close>.\<close>

record websocket =
  url :: string
  onopen :: bool
  onmessage :: bool
  onclose :: bool
  onerror :: bool
  close_called :: bool
  close_dispatched :: bool
  sent :: "(string \<times> string) list list"

record media_source =
  sourceopen_listener :: bool

record source_buffer =
  updating :: bool
  updateend_listener :: bool

datatype timer = Timeout int | Interval int

text \<open>A call on a SourceBuffer, with the name of the exception it threw, if any.\<close>

datatype sink_op = AppendBuffer bytes | Remove real real

type_synonym sink_call = "nat \<times> sink_op \<times> string option"

text \<open>The world: the component's state object, the props captured by the effect, the
  host's objects, the armed timers, and the calls made on the callbacks
  \<^verbatim>\<open>updateStatus\<close> and \<^verbatim>\<open>updateError\<close> and on the SourceBuffers, in order.\<close>

record world = state +
  src :: string
  media :: string
  sockets :: "nat \<Rightarrow> websocket"
  next_ws :: nat
  sources :: "nat \<Rightarrow> media_source"
  next_ms :: nat
  sbuffers :: "nat \<Rightarrow> source_buffer"
  next_sb :: nat
  timers :: "nat \<Rightarrow> timer option"
  next_timer :: nat
  statuses :: "string list"
  errors :: "string option list"
  sink_calls :: "sink_call list"

text \<open>The second variant in \<^verbatim>\<open>MSEVideoStream.tsx\<close> keeps in addition
  \<^verbatim>\<open>connectTSRef.current\<close>, written by its \<^verbatim>\<open>connect\<close>; its state object has no
  \<^verbatim>\<open>lastDataTime\<close> and no \<^verbatim>\<open>stalledCheckTimer\<close>, which its functions below leave alone.\<close>

record world_ts = world +
  connectTS :: int

text \<open>What one handler run reads from the host: \<^verbatim>\<open>Date.now()\<close>,
  \<^verbatim>\<open>window.location.origin\<close>, whether \<^verbatim>\<open>new WebSocket\<close> throws, whether a
  MediaSource class exists, \<^verbatim>\<open>isTypeSupported\<close>, whether \<^verbatim>\<open>addSourceBuffer\<close> throws,
  the exception of \<^verbatim>\<open>appendBuffer\<close> if it throws, \<^verbatim>\<open>sb.buffered\<close> (\<open>None\<close> when
  reading it throws), \<^verbatim>\<open>videoRef.current?.currentTime\<close> (\<open>None\<close> when it is undefined or
  not a number), the subtraction of the host's double arithmetic, and whether
  \<^verbatim>\<open>sb.remove\<close> throws. A media time is a finite double, that is, a real number;
  \<open>double_minus x y\<close> is the double the host computes for \<open>x - y\<close>, of which nothing is
  assumed here, so that every rounding is covered. Comparing two doubles is exact.\<close>

record env =
  now :: int
  origin :: string
  websocket_throws :: bool
  has_MediaSource :: bool
  isTypeSupported :: "string \<Rightarrow> bool"
  addSourceBuffer_throws :: bool
  append_throws :: "string option"
  buffered :: "(real \<times> real) list option"
  currentTime :: "real option"
  double_minus :: "real \<Rightarrow> real \<Rightarrow> real"
  remove_throws :: bool

datatype ws_data = Malformed | Json string string | Binary bytes

datatype event =
    WsOpen nat
  | WsMessage nat ws_data
  | WsClose nat
  | WsError nat
  | TimerFire nat
  | UpdateEnd nat
  | SourceOpen nat
  | Stop

subsection \<open>Callbacks and codec selection\<close>

definition updateStatus :: "string \<Rightarrow> 'a world_scheme \<Rightarrow> 'a world_scheme" where
  "updateStatus s w = w\<lparr>statuses := statuses w @ [s]\<rparr>"

definition updateError :: "string option \<Rightarrow> 'a world_scheme \<Rightarrow> 'a world_scheme" where
  "updateError e w = w\<lparr>errors := errors w @ [e]\<rparr>"

definition codecsRef :: "string list" where
  "codecsRef = [''avc1.640029'', ''avc1.64002A'', ''avc1.640033'', ''hvc1.1.6.L153.B0'',
     ''mp4a.40.2'', ''mp4a.40.5'', ''flac'', ''opus'']"

definition mime :: "string \<Rightarrow> string" where
  "mime codec = ''video/mp4; codecs=\"'' @ codec @ ''\"''"

definition getSupportedCodecs :: "string \<Rightarrow> (string \<Rightarrow> bool) \<Rightarrow> string" where
  "getSupportedCodecs med isSupported =
     join (filter (\<lambda>codec. isSupported (mime codec))
       (filter (\<lambda>codec. includes_str med (if includes_str codec ''vc1'' then ''video'' else ''audio''))
          codecsRef))"

subsection \<open>Timers\<close>

definition clearTimer :: "nat \<Rightarrow> 'a world_scheme \<Rightarrow> 'a world_scheme" where
  "clearTimer t w = w\<lparr>timers := (timers w)(t := None)\<rparr>"

definition setTimer :: "timer \<Rightarrow> 'a world_scheme \<Rightarrow> nat \<times> 'a world_scheme" where
  "setTimer k w =
     (next_timer w, w\<lparr>timers := (timers w)(next_timer w \<mapsto> k), next_timer := Suc (next_timer w)\<rparr>)"

subsection \<open>cleanup\<close>

text \<open>The blocks of \<^verbatim>\<open>cleanup\<close> in source order. Removing the SourceBuffers from the
  MediaSource and resetting the media element change only host objects whose answers
  are readings here; of those two blocks \<open>state.ms = null\<close> remains.\<close>

definition cleanup :: "world \<Rightarrow> world" where
  "cleanup w0 =
     (let w1 = (case reconnectTimer w0 of
                  Some t \<Rightarrow> (clearTimer t w0)\<lparr>reconnectTimer := None\<rparr>
                | None \<Rightarrow> w0);
          w2 = (case stalledCheckTimer w1 of
                  Some t \<Rightarrow> (clearTimer t w1)\<lparr>stalledCheckTimer := None\<rparr>
                | None \<Rightarrow> w1);
          w3 = (case sb w2 of
                  Some b \<Rightarrow>
                    (case sbUpdateHandler w2 of
                       Some h \<Rightarrow>
                         w2\<lparr>sbuffers := (sbuffers w2)
                               (b := (sbuffers w2 b)\<lparr>updateend_listener :=
                                  updateend_listener (sbuffers w2 b) \<and> h \<noteq> b\<rparr>),
                            sbUpdateHandler := None\<rparr>
                     | None \<Rightarrow> w2)
                | None \<Rightarrow> w2);
          w4 = (case ws w3 of
                  Some i \<Rightarrow>
                    w3\<lparr>ws := None,
                       sockets := (sockets w3)
                         (i := (sockets w3 i)\<lparr>onopen := False, onmessage := False,
                                  onclose := False, onerror := False, close_called := True\<rparr>)\<rparr>
                | None \<Rightarrow> w3);
          w5 = w4\<lparr>ms := None\<rparr>
      in w5\<lparr>sb := None, buffer := (buffer w5)\<lparr>buf_length := 0\<rparr>, lastDataTime := 0\<rparr>)"

subsection \<open>connect\<close>

definition normalize_url :: "string \<Rightarrow> string \<Rightarrow> string" where
  "normalize_url orig wsURL =
     (if startsWith wsURL ''http'' then ''ws'' @ substring wsURL 4
      else if startsWith wsURL ''/'' then ''ws'' @ substring orig 4 @ wsURL
      else wsURL)"

definition connect :: "env \<Rightarrow> world \<Rightarrow> world" where
  "connect e w =
     (let w1 = updateStatus ''connecting'' w;
          wsURL = normalize_url (origin e) (src w1)
      in if websocket_throws e then w1
         else w1\<lparr>ws := Some (next_ws w1),
                 sockets := (sockets w1)
                   (next_ws w1 := \<lparr>url = wsURL, onopen = True, onmessage = True, onclose = True,
                      onerror = True, close_called = False, close_dispatched = False, sent = []\<rparr>),
                 next_ws := Suc (next_ws w1)\<rparr>)"

subsection \<open>reconnect and the stall check\<close>

definition reconnect :: "world \<Rightarrow> world" where
  "reconnect w =
     (if \<not> isMounted w \<or> isReconnecting w then w
      else
        (let w1 = updateStatus ''reconnecting'' (cleanup (w\<lparr>isReconnecting := True\<rparr>));
             (t, w2) = setTimer (Timeout 2000) w1
         in w2\<lparr>reconnectTimer := Some t\<rparr>))"

text \<open>The callback of the timeout armed by \<open>reconnect\<close>.\<close>

definition reconnect_fire :: "env \<Rightarrow> world \<Rightarrow> world" where
  "reconnect_fire e w =
     (let w1 = w\<lparr>isReconnecting := False\<rparr>
      in if isMounted w1 then connect e w1 else w1)"

text \<open>The callback of the interval armed by \<open>startStalledCheck\<close>.\<close>

definition stalled_tick :: "env \<Rightarrow> world \<Rightarrow> world" where
  "stalled_tick e w =
     (if lastDataTime w = 0 then w
      else
        (let timeSinceLastData = now e - lastDataTime w
         in if timeSinceLastData > 2000 then reconnect (updateStatus ''stalled'' w) else w))"

definition startStalledCheck :: "world \<Rightarrow> world" where
  "startStalledCheck w =
     (let w1 = (case stalledCheckTimer w of Some t \<Rightarrow> clearTimer t w | None \<Rightarrow> w);
          (t, w2) = setTimer (Interval 2000) w1
      in w2\<lparr>stalledCheckTimer := Some t\<rparr>)"

subsection \<open>The SourceBuffer and the segment buffer\<close>

text \<open>\<^verbatim>\<open>sb.appendBuffer(d)\<close> and \<^verbatim>\<open>sb.remove(s, e)\<close>: the call is recorded; when it does
  not throw the SourceBuffer is updating until its next \<^verbatim>\<open>updateend\<close>.\<close>

definition appendBuffer :: "env \<Rightarrow> nat \<Rightarrow> bytes \<Rightarrow> world \<Rightarrow> string option \<times> world" where
  "appendBuffer e b d w =
     (case append_throws e of
        Some name \<Rightarrow> (Some name, w\<lparr>sink_calls := sink_calls w @ [(b, AppendBuffer d, Some name)]\<rparr>)
      | None \<Rightarrow>
          (None, w\<lparr>sink_calls := sink_calls w @ [(b, AppendBuffer d, None)],
                   sbuffers := (sbuffers w)(b := (sbuffers w b)\<lparr>updating := True\<rparr>)\<rparr>))"

definition sb_remove :: "env \<Rightarrow> nat \<Rightarrow> real \<Rightarrow> real \<Rightarrow> world \<Rightarrow> world" where
  "sb_remove e b s f w =
     (if remove_throws e
      then w\<lparr>sink_calls := sink_calls w @ [(b, Remove s f, Some ''Error'')]\<rparr>
      else w\<lparr>sink_calls := sink_calls w @ [(b, Remove s f, None)],
             sbuffers := (sbuffers w)(b := (sbuffers w b)\<lparr>updating := True\<rparr>)\<rparr>)"

definition trimBuffer :: "env \<Rightarrow> world \<Rightarrow> world" where
  "trimBuffer e w =
     (case sb w of
        None \<Rightarrow> w
      | Some b \<Rightarrow>
          if updating (sbuffers w b) then w
          else
            (case buffered e of
               None \<Rightarrow> w
             | Some ranges \<Rightarrow>
                 if length ranges > 0 then
                   (let currentTime = (case currentTime e of Some t \<Rightarrow> t | None \<Rightarrow> 0);
                        bufferedStart = fst (hd ranges)
                    in if double_minus e currentTime bufferedStart > 10
                       then sb_remove e b bufferedStart (double_minus e currentTime 5) w
                       else w)
                 else w))"

text \<open>\<^verbatim>\<open>data.set(view, offset)\<close> and \<^verbatim>\<open>data.subarray(0, n)\<close>.\<close>

definition set_bytes :: "(nat \<Rightarrow> byte) \<Rightarrow> bytes \<Rightarrow> nat \<Rightarrow> (nat \<Rightarrow> byte)" where
  "set_bytes arena view offset =
     (\<lambda>i. if offset \<le> i \<and> i < offset + length view then view ! (i - offset) else arena i)"

definition subarray :: "(nat \<Rightarrow> byte) \<Rightarrow> nat \<Rightarrow> bytes" where
  "subarray arena n = map arena [0..<n]"

definition appendData :: "env \<Rightarrow> bytes \<Rightarrow> world \<Rightarrow> world" where
  "appendData e d w0 =
     (let w = w0\<lparr>lastDataTime := now e\<rparr>
      in case sb w of
           None \<Rightarrow> w
         | Some b \<Rightarrow>
             if updating (sbuffers w b) \<or> buf_length (buffer w) > 0 then
               (if buf_length (buffer w) + length d \<le> data_length (buffer w)
                then w\<lparr>buffer := (buffer w)
                        \<lparr>data := set_bytes (data (buffer w)) d (buf_length (buffer w)),
                         buf_length := buf_length (buffer w) + length d\<rparr>\<rparr>
                else w)
             else
               (case appendBuffer e b d w of
                  (None, w') \<Rightarrow> w'
                | (Some name, w') \<Rightarrow>
                    if name = ''QuotaExceededError'' then trimBuffer e w' else w'))"

text \<open>The \<^verbatim>\<open>updateend\<close> listener made by \<^verbatim>\<open>setupSourceBuffer\<close> for SourceBuffer \<open>b\<close>.\<close>

definition sbUpdateHandler_run :: "env \<Rightarrow> nat \<Rightarrow> world \<Rightarrow> world" where
  "sbUpdateHandler_run e b w =
     (let w1 =
        (if \<not> updating (sbuffers w b) \<and> buf_length (buffer w) > 0 then
           (case appendBuffer e b (subarray (data (buffer w)) (buf_length (buffer w))) w of
              (None, w') \<Rightarrow> w'\<lparr>buffer := (buffer w')\<lparr>buf_length := 0\<rparr>\<rparr>
            | (Some name, w') \<Rightarrow>
                if name = ''QuotaExceededError'' then trimBuffer e w' else w')
         else w)
      in trimBuffer e w1)"

definition setupSourceBuffer :: "env \<Rightarrow> string \<Rightarrow> world \<Rightarrow> world" where
  "setupSourceBuffer e codecString w =
     (case ms w of
        None \<Rightarrow> w
      | Some m \<Rightarrow>
          if addSourceBuffer_throws e then w
          else
            (let b = next_sb w;
                 w1 = w\<lparr>sbuffers := (sbuffers w)(b := \<lparr>updating = False, updateend_listener = True\<rparr>),
                        next_sb := Suc b,
                        sbUpdateHandler := Some b,
                        sb := Some b\<rparr>
             in startStalledCheck (updateStatus ''streaming'' w1)))"

subsection \<open>cleanup, reconnect and connect of the second TSX variant\<close>

definition cleanup_ts :: "world_ts \<Rightarrow> world_ts" where
  "cleanup_ts w0 =
     (let w1 = (case reconnectTimer w0 of
                  Some t \<Rightarrow> (clearTimer t w0)\<lparr>reconnectTimer := None\<rparr>
                | None \<Rightarrow> w0);
          w3 = (case sb w1 of
                  Some b \<Rightarrow>
                    (case sbUpdateHandler w1 of
                       Some h \<Rightarrow>
                         w1\<lparr>sbuffers := (sbuffers w1)
                               (b := (sbuffers w1 b)\<lparr>updateend_listener :=
                                  updateend_listener (sbuffers w1 b) \<and> h \<noteq> b\<rparr>),
                            sbUpdateHandler := None\<rparr>
                     | None \<Rightarrow> w1)
                | None \<Rightarrow> w1);
          w4 = (case ws w3 of
                  Some i \<Rightarrow>
                    w3\<lparr>sockets := (sockets w3)
                         (i := (sockets w3 i)\<lparr>onclose := False, close_called := True\<rparr>),
                       ws := None\<rparr>
                | None \<Rightarrow> w3);
          w5 = w4\<lparr>ms := None\<rparr>
      in w5\<lparr>sb := None, buffer := (buffer w5)\<lparr>buf_length := 0\<rparr>\<rparr>)"

definition RECONNECT_TIMEOUT :: int where
  "RECONNECT_TIMEOUT = 15000"

definition reconnect_ts :: "env \<Rightarrow> world_ts \<Rightarrow> world_ts" where
  "reconnect_ts e w =
     (if \<not> isMounted w \<or> isReconnecting w then w
      else
        (let delay = max (RECONNECT_TIMEOUT - (now e - connectTS w)) 0;
             w1 = cleanup_ts (w\<lparr>isReconnecting := True\<rparr>);
             w2 = (if delay > 500 then updateStatus ''reconnecting'' w1 else w1);
             (t, w3) = setTimer (Timeout delay) w2
         in w3\<lparr>reconnectTimer := Some t\<rparr>))"

text \<open>\<^verbatim>\<open>connect\<close> of the second TSX variant records the clock in
  \<^verbatim>\<open>connectTSRef.current\<close> before it opens the socket; its \<^verbatim>\<open>ws.onclose\<close> is that of
  the first variant.\<close>

definition connect_ts :: "env \<Rightarrow> world_ts \<Rightarrow> world_ts" where
  "connect_ts e w =
     (let w1 = (updateStatus ''connecting'' w)\<lparr>connectTS := now e\<rparr>;
          wsURL = normalize_url (origin e) (src w1)
      in if websocket_throws e then w1
         else w1\<lparr>ws := Some (next_ws w1),
                 sockets := (sockets w1)
                   (next_ws w1 := \<lparr>url = wsURL, onopen = True, onmessage = True, onclose = True,
                      onerror = True, close_called = False, close_dispatched = False, sent = []\<rparr>),
                 next_ws := Suc (next_ws w1)\<rparr>)"

definition ws_onclose_ts :: "env \<Rightarrow> nat \<Rightarrow> world_ts \<Rightarrow> world_ts" where
  "ws_onclose_ts e i w =
     (if ws w = Some i then reconnect_ts e (updateStatus ''closed'' (w\<lparr>ws := None\<rparr>)) else w)"

subsection \<open>setupMSE and the WebSocket handlers\<close>

definition setupMSE :: "env \<Rightarrow> world \<Rightarrow> world" where
  "setupMSE e w =
     (if \<not> has_MediaSource e
      then updateStatus ''error'' (updateError (Some ''MediaSource not supported'') w)
      else w\<lparr>ms := Some (next_ms w),
             sources := (sources w)(next_ms w := \<lparr>sourceopen_listener = True\<rparr>),
             next_ms := Suc (next_ms w)\<rparr>)"

text \<open>The \<^verbatim>\<open>sourceopen\<close> listener (registered with \<^verbatim>\<open>once: true\<close>).\<close>

definition ws_send :: "nat \<Rightarrow> (string \<times> string) list \<Rightarrow> world \<Rightarrow> world" where
  "ws_send i msg w = w\<lparr>sockets := (sockets w)(i := (sockets w i)\<lparr>sent := sent (sockets w i) @ [msg]\<rparr>)\<rparr>"

definition on_sourceopen :: "env \<Rightarrow> world \<Rightarrow> world" where
  "on_sourceopen e w =
     (let codecs = getSupportedCodecs (media w) (isTypeSupported e)
      in case ws w of
           Some i \<Rightarrow> ws_send i [(''type'', ''mse''), (''value'', codecs)] w
         | None \<Rightarrow> w)"

definition ws_onopen :: "env \<Rightarrow> world \<Rightarrow> world" where
  "ws_onopen e w = setupMSE e (updateError None (updateStatus ''open'' w))"

definition ws_onmessage :: "env \<Rightarrow> ws_data \<Rightarrow> world \<Rightarrow> world" where
  "ws_onmessage e m w =
     (case m of
        Malformed \<Rightarrow> w
      | Json ty v \<Rightarrow>
          if ty = ''mse'' then setupSourceBuffer e v w
          else if ty = ''error'' then reconnect (updateStatus ''error'' (updateError (Some v) w))
          else w
      | Binary d \<Rightarrow> appendData e d w)"

definition ws_onclose :: "nat \<Rightarrow> world \<Rightarrow> world" where
  "ws_onclose i w =
     (if ws w = Some i then reconnect (updateStatus ''closed'' (w\<lparr>ws := None\<rparr>)) else w)"

definition ws_onerror :: "world \<Rightarrow> world" where
  "ws_onerror w = updateStatus ''error'' (updateError (Some ''Connection failed'') w)"

subsection \<open>The effect, its cleanup, and the event loop\<close>

definition init :: "string \<Rightarrow> string \<Rightarrow> world" where
  "init s m =
     \<lparr>ws = None, ms = None, sb = None, sbUpdateHandler = None,
      buffer = \<lparr>data = (\<lambda>_. 0), data_length = 2 * 1024 * 1024, buf_length = 0\<rparr>,
      lastDataTime = 0, reconnectTimer = None, stalledCheckTimer = None,
      isMounted = True, isReconnecting = False,
      src = s, media = m,
      sockets = (\<lambda>_. \<lparr>url = [], onopen = False, onmessage = False, onclose = False,
                       onerror = False, close_called = False, close_dispatched = False, sent = []\<rparr>),
      next_ws = 0,
      sources = (\<lambda>_. \<lparr>sourceopen_listener = False\<rparr>), next_ms = 0,
      sbuffers = (\<lambda>_. \<lparr>updating = False, updateend_listener = False\<rparr>), next_sb = 0,
      timers = (\<lambda>_. None), next_timer = 1,
      statuses = [], errors = [], sink_calls = []\<rparr>"

text \<open>The effect body and the cleanup it returns. With an empty \<^verbatim>\<open>src\<close> the effect
  returns at once and registers no cleanup; the video element is taken to be rendered.\<close>

definition mount :: "env \<Rightarrow> world \<Rightarrow> world" where
  "mount e w = (if src w = [] then w else connect e (w\<lparr>isMounted := True, isReconnecting := False\<rparr>))"

definition stop :: "world \<Rightarrow> world" where
  "stop w = (if src w = [] then w else cleanup (w\<lparr>isMounted := False\<rparr>))"

text \<open>One turn of the host's event loop. A socket event reaches a handler only while the
  socket's close event has not been dispatched and the handler slot is set; a timer
  fires only while armed, and a timeout disarms as it fires; \<^verbatim>\<open>updateend\<close> comes with
  \<^verbatim>\<open>updating\<close> false.\<close>

definition step :: "env \<Rightarrow> event \<Rightarrow> world \<Rightarrow> world" where
  "step e ev w =
     (case ev of
        WsOpen i \<Rightarrow>
          if \<not> close_dispatched (sockets w i) \<and> onopen (sockets w i) then ws_onopen e w else w
      | WsMessage i m \<Rightarrow>
          if \<not> close_dispatched (sockets w i) \<and> onmessage (sockets w i) then ws_onmessage e m w else w
      | WsError i \<Rightarrow>
          if \<not> close_dispatched (sockets w i) \<and> onerror (sockets w i) then ws_onerror w else w
      | WsClose i \<Rightarrow>
          if close_dispatched (sockets w i) then w
          else
            (let w1 = w\<lparr>sockets := (sockets w)(i := (sockets w i)\<lparr>close_dispatched := True\<rparr>)\<rparr>
             in if onclose (sockets w i) then ws_onclose i w1 else w1)
      | TimerFire t \<Rightarrow>
          (case timers w t of
             None \<Rightarrow> w
           | Some (Timeout d) \<Rightarrow> reconnect_fire e (clearTimer t w)
           | Some (Interval d) \<Rightarrow> stalled_tick e w)
      | UpdateEnd b \<Rightarrow>
          (let w1 = w\<lparr>sbuffers := (sbuffers w)(b := (sbuffers w b)\<lparr>updating := False\<rparr>)\<rparr>
           in if updateend_listener (sbuffers w b) then sbUpdateHandler_run e b w1 else w1)
      | SourceOpen m \<Rightarrow>
          if sourceopen_listener (sources w m)
          then on_sourceopen e
                 (w\<lparr>sources := (sources w)(m := (sources w m)\<lparr>sourceopen_listener := False\<rparr>)\<rparr>)
          else w
      | Stop \<Rightarrow> stop w)"

fun run :: "(env \<times> event) list \<Rightarrow> world \<Rightarrow> world" where
  "run [] w = w"
| "run ((e, ev) # evs) w = run evs (step e ev w)"

definition reachable :: "world \<Rightarrow> bool" where
  "reachable w = (\<exists>e s m evs. w = run evs (mount e (init s m)))"

subsection \<open>Observations\<close>

text \<open>The calls of \<^verbatim>\<open>appendBuffer\<close> among the recorded SourceBuffer calls: SourceBuffer,
  bytes, and the exception thrown, if any.\<close>

fun append_calls :: "sink_call list \<Rightarrow> (nat \<times> bytes \<times> string option) list" where
  "append_calls [] = []"
| "append_calls ((b, AppendBuffer d, r) # cs) = (b, d, r) # append_calls cs"
| "append_calls ((b, Remove s f, r) # cs) = append_calls cs"

text \<open>The buffered range \<^verbatim>\<open>data.subarray(0, length)\<close> of the segment buffer.\<close>

definition queued :: "world \<Rightarrow> bytes" where
  "queued w = subarray (data (buffer w)) (buf_length (buffer w))"

text \<open>The payloads the SourceBuffers accepted (the \<^verbatim>\<open>appendBuffer\<close> calls that returned),
  in call order, and those accepted by one SourceBuffer.\<close>

definition accepted :: "world \<Rightarrow> (nat \<times> bytes) list" where
  "accepted w =
     map (\<lambda>(b, d, r). (b, d)) (filter (\<lambda>(b, d, r). r = None) (append_calls (sink_calls w)))"

definition delivered :: "world \<Rightarrow> bytes list" where
  "delivered w = map snd (accepted w)"

definition delivered_to :: "nat \<Rightarrow> world \<Rightarrow> bytes list" where
  "delivered_to b w = map snd (filter (\<lambda>(b', d). b' = b) (accepted w))"

text \<open>The binary segments among a sequence of host events, in arrival order.\<close>

definition segment_of :: "event \<Rightarrow> bytes list" where
  "segment_of ev = (case ev of WsMessage i (Binary d) \<Rightarrow> [d] | _ \<Rightarrow> [])"

definition arrivals :: "(env \<times> event) list \<Rightarrow> bytes list" where
  "arrivals evs = concat (map (\<lambda>(e, ev). segment_of ev) evs)"

text \<open>The media kind \<^verbatim>\<open>getSupportedCodecs\<close> infers from a codec identifier.\<close>

definition kind_of :: "string \<Rightarrow> string" where
  "kind_of codec = (if includes_str codec ''vc1'' then ''video'' else ''audio'')"

subsection \<open>Invariants of the event loop\<close>

text \<open>A socket can still call into the component when its close event was not
  dispatched and one of its handler slots is set. \<open>inv_T\<close>: every armed timer is the
  one remembered in the state, a timeout for \<open>reconnectTimer\<close> and an interval for
  \<open>stalledCheckTimer\<close>. \<open>inv_W\<close>: the only socket that can call in is \<open>state.ws\<close>.
  \<open>inv_R\<close>: while a reconnect timeout is armed there is no current socket.\<close>

definition has_handler :: "websocket \<Rightarrow> bool" where
  "has_handler s = (onopen s \<or> onmessage s \<or> onclose s \<or> onerror s)"

definition live :: "websocket \<Rightarrow> bool" where
  "live s = (\<not> close_dispatched s \<and> has_handler s)"

definition inv_T :: "world \<Rightarrow> bool" where
  "inv_T w = (\<forall>t k. timers w t = Some k \<longrightarrow>
      (reconnectTimer w = Some t \<and> (\<exists>d. k = Timeout d)) \<or>
      (stalledCheckTimer w = Some t \<and> (\<exists>d. k = Interval d)))"

definition inv_W :: "world \<Rightarrow> bool" where
  "inv_W w = (\<forall>i. live (sockets w i) \<longrightarrow> ws w = Some i)"

definition inv_R :: "world \<Rightarrow> bool" where
  "inv_R w = (\<forall>t d. timers w t = Some (Timeout d) \<longrightarrow> ws w = None)"

definition inv :: "world \<Rightarrow> bool" where
  "inv w = (inv_T w \<and> inv_W w \<and> inv_R w)"

text \<open>\<open>silent\<close>: no timer is armed and no socket can call in.\<close>

definition silent :: "world \<Rightarrow> bool" where
  "silent w = ((\<forall>t. timers w t = None) \<and> (\<forall>i. \<not> live (sockets w i)))"

text \<open>\<open>buffer_ok\<close>: the arena has its 2 MiB and the logical length is within it.
  \<open>in_order w A\<close>: what the SourceBuffers accepted so far, call by call, followed by what
  is queued, is made of segments of \<open>A\<close> in the order of \<open>A\<close>; \<open>tds\<close> gives for each
  accepted call its SourceBuffer and the segments it carried.\<close>

definition buffer_ok :: "world \<Rightarrow> bool" where
  "buffer_ok w = (data_length (buffer w) = 2 * 1024 * 1024
     \<and> buf_length (buffer w) \<le> data_length (buffer w))"

definition in_order :: "world \<Rightarrow> bytes list \<Rightarrow> bool" where
  "in_order w A = (\<exists>tds qs.
      accepted w = map (\<lambda>(b, ds). (b, concat ds)) tds
      \<and> queued w = concat qs
      \<and> subseq (concat (map snd tds) @ qs) A)"

subsection \<open>Concrete hosts and worlds\<close>

text \<open>Readings of a host on which nothing throws, at clock reading \<open>t\<close>; used to run
  the model on concrete event sequences. The media times of these readings and of the
  next are the integers 0, 20 and 30, whose differences with each other and with 5 a
  host computes exactly.\<close>

definition readings :: "int \<Rightarrow> env" where
  "readings t =
     \<lparr>now = t, origin = ''http://localhost'', websocket_throws = False, has_MediaSource = True,
      isTypeSupported = (\<lambda>_. True), addSourceBuffer_throws = False, append_throws = None,
      buffered = Some [], currentTime = Some 0, double_minus = (\<lambda>x y. x - y),
      remove_throws = False\<rparr>"

text \<open>Readings of a host whose SourceBuffer is full: \<^verbatim>\<open>appendBuffer\<close> throws
  \<^verbatim>\<open>QuotaExceededError\<close>, 30 s are buffered and playback is at 20 s.\<close>

definition quota_readings :: "int \<Rightarrow> env" where
  "quota_readings t =
     (readings t)\<lparr>append_throws := Some ''QuotaExceededError'',
                  buffered := Some [(0, 30)], currentTime := Some 20\<rparr>"

text \<open>A world in which a stream is playing: the socket opened, the codecs were sent,
  the server answered, and one segment arrived.\<close>

definition streaming_world :: world where
  "streaming_world =
     run [(readings 1000, WsOpen 0), (readings 1010, SourceOpen 0),
          (readings 1020, WsMessage 0 (Json ''mse'' ''avc1.640029'')),
          (readings 1030, WsMessage 0 (Binary [1, 2, 3]))]
       (mount (readings 900) (init ''ws://localhost:1984/api/ws?src=cam'' ''video,audio''))"

text \<open>The playing world after a second segment arrived while the SourceBuffer was still
  updating: the segment is queued.\<close>

definition backlog_world :: world where
  "backlog_world = step (readings 1040) (WsMessage 0 (Binary [4, 5])) streaming_world"

text \<open>A world whose clock read 0 all along: the stream is playing and the last segment
  arrived at \<^verbatim>\<open>Date.now() = 0\<close>.\<close>

definition epoch_world :: world where
  "epoch_world =
     run [(readings 0, WsOpen 0), (readings 0, SourceOpen 0),
          (readings 0, WsMessage 0 (Json ''mse'' ''avc1.640029'')),
          (readings 0, WsMessage 0 (Binary [1, 2, 3]))]
       (mount (readings 0) (init ''ws://localhost:1984/api/ws?src=cam'' ''video,audio''))"

text \<open>A world in which the socket opened and the MediaSource fired \<^verbatim>\<open>sourceopen\<close>.\<close>

definition negotiated_world :: world where
  "negotiated_world =
     run [(readings 1000, WsOpen 0), (readings 1010, SourceOpen 0)]
       (mount (readings 900) (init ''ws://localhost:1984/api/ws?src=cam'' ''video,audio''))"

text \<open>The state of the second TSX variant before its effect runs: that of the first, with
  \<^verbatim>\<open>connectTSRef.current = 0\<close>.\<close>

definition init_ts :: "string \<Rightarrow> string \<Rightarrow> world_ts" where
  "init_ts s m = world.extend (init s m) (world_ts.fields 0)"

subsection \<open>Counting the control messages\<close>

text \<open>The number of control messages sent on the sockets created so far, the number of
  MediaSources created so far whose \<^verbatim>\<open>sourceopen\<close> listener has not run yet, and the
  number of socket open events in a sequence of host events.\<close>

definition sent_count :: "world \<Rightarrow> nat" where
  "sent_count w = (\<Sum>i<next_ws w. length (sent (sockets w i)))"

definition pending_sources :: "world \<Rightarrow> nat" where
  "pending_sources w = (\<Sum>m<next_ms w. if sourceopen_listener (sources w m) then 1 else 0)"

definition is_open :: "event \<Rightarrow> bool" where
  "is_open ev = (case ev of WsOpen i \<Rightarrow> True | _ \<Rightarrow> False)"

definition opens :: "(env \<times> event) list \<Rightarrow> nat" where
  "opens evs = length (filter (\<lambda>(e, ev). is_open ev) evs)"

text \<open>\<open>msg_ok\<close>: the messages sent and the listeners still waiting together number at most
  the MediaSources created; sockets and MediaSources not yet created have sent nothing
  and wait for nothing; the current socket was created; every message sent has the
  form \<open>{type: "mse", value: v}\<close>. \<open>msg_frame w w'\<close>: from \<open>w\<close> to \<open>w'\<close> no message was sent,
  no socket and no MediaSource was created, no listener changed, and the current socket
  is the same or none.\<close>

definition msg_ok :: "world \<Rightarrow> bool" where
  "msg_ok w = (sent_count w + pending_sources w \<le> next_ms w
     \<and> (\<forall>i. next_ws w \<le> i \<longrightarrow> sent (sockets w i) = [])
     \<and> (\<forall>m. next_ms w \<le> m \<longrightarrow> \<not> sourceopen_listener (sources w m))
     \<and> (\<forall>i. ws w = Some i \<longrightarrow> i < next_ws w)
     \<and> (\<forall>i. \<forall>msg \<in> set (sent (sockets w i)). \<exists>v. msg = [(''type'', ''mse''), (''value'', v)]))"

definition msg_frame :: "world \<Rightarrow> world \<Rightarrow> bool" where
  "msg_frame w w' = ((\<forall>i. sent (sockets w' i) = sent (sockets w i))
     \<and> next_ws w' = next_ws w \<and> sources w' = sources w \<and> next_ms w' = next_ms w
     \<and> (ws w' = ws w \<or> ws w' = None))"

text \<open>A world on a host without a MediaSource class, after the socket opened.\<close>

definition unsupported_world :: world where
  "unsupported_world =
     run [((readings 1000)\<lparr>has_MediaSource := False\<rparr>, WsOpen 0)]
       (mount (readings 900) (init ''ws://localhost:1984/api/ws?src=cam'' ''video,audio''))"

section \<open>Proofs\<close>

lemma run_append: "run (xs @ ys) w = run ys (run xs w)"
  by (induction xs arbitrary: w) auto

subsection \<open>The invariant holds in every reachable world\<close>

lemma cleanup_timers:
  "timers (cleanup w) t =
     (if reconnectTimer w = Some t \<or> stalledCheckTimer w = Some t then None else timers w t)"
  by (simp add: cleanup_def Let_def clearTimer_def split: option.splits)

lemma cleanup_sockets:
  "sockets (cleanup w) i =
     (if ws w = Some i
      then (sockets w i)\<lparr>onopen := False, onmessage := False, onclose := False,
                         onerror := False, close_called := True\<rparr>
      else sockets w i)"
  by (simp add: cleanup_def Let_def clearTimer_def split: option.splits)

lemma cleanup_fields [simp]:
  "ws (cleanup w) = None" "ms (cleanup w) = None" "sb (cleanup w) = None"
  "reconnectTimer (cleanup w) = None" "stalledCheckTimer (cleanup w) = None"
  "isMounted (cleanup w) = isMounted w" "isReconnecting (cleanup w) = isReconnecting w"
  "statuses (cleanup w) = statuses w" "errors (cleanup w) = errors w"
  "next_timer (cleanup w) = next_timer w" "next_ws (cleanup w) = next_ws w"
  "sink_calls (cleanup w) = sink_calls w" "src (cleanup w) = src w"
  "buf_length (buffer (cleanup w)) = 0" "lastDataTime (cleanup w) = 0"
  "data_length (buffer (cleanup w)) = data_length (buffer w)"
  "data (buffer (cleanup w)) = data (buffer w)"
  by (simp_all add: cleanup_def Let_def clearTimer_def split: option.splits)

lemma inv_T_cleanup: "inv_T w \<Longrightarrow> timers (cleanup w) t = None"
  unfolding inv_T_def cleanup_timers by (cases "timers w t") auto

lemma inv_W_cleanup: "inv_W w \<Longrightarrow> \<not> live (sockets (cleanup w) i)"
  unfolding inv_W_def cleanup_sockets by (auto simp: live_def has_handler_def)

lemma inv_cleanup: "inv_T w \<Longrightarrow> inv_W w \<Longrightarrow> inv (cleanup w)"
  by (simp add: inv_def inv_T_def inv_W_def inv_R_def inv_T_cleanup inv_W_cleanup)

lemma inv_T_upd [simp]:
  "inv_T (w\<lparr>isReconnecting := b\<rparr>) = inv_T w"
  "inv_T (w\<lparr>isMounted := b\<rparr>) = inv_T w"
  "inv_T (w\<lparr>ws := x\<rparr>) = inv_T w"
  "inv_T (w\<lparr>sockets := y\<rparr>) = inv_T w"
  "inv_T (w\<lparr>sbuffers := sbs\<rparr>) = inv_T w"
  "inv_T (w\<lparr>sources := z\<rparr>) = inv_T w"
  "inv_T (w\<lparr>buffer := bf\<rparr>) = inv_T w"
  "inv_T (w\<lparr>lastDataTime := l\<rparr>) = inv_T w"
  "inv_T (w\<lparr>sink_calls := sc\<rparr>) = inv_T w"
  "inv_T (updateStatus s w) = inv_T w"
  "inv_T (updateError er w) = inv_T w"
  by (simp_all add: inv_T_def updateStatus_def updateError_def)

lemma inv_W_upd [simp]:
  "inv_W (w\<lparr>isReconnecting := b\<rparr>) = inv_W w"
  "inv_W (w\<lparr>isMounted := b\<rparr>) = inv_W w"
  "inv_W (w\<lparr>sbuffers := sbs\<rparr>) = inv_W w"
  "inv_W (w\<lparr>sources := z\<rparr>) = inv_W w"
  "inv_W (w\<lparr>buffer := bf\<rparr>) = inv_W w"
  "inv_W (w\<lparr>lastDataTime := l\<rparr>) = inv_W w"
  "inv_W (w\<lparr>sink_calls := sc\<rparr>) = inv_W w"
  "inv_W (updateStatus s w) = inv_W w"
  "inv_W (updateError er w) = inv_W w"
  by (simp_all add: inv_W_def updateStatus_def updateError_def)

lemma inv_R_upd [simp]:
  "inv_R (w\<lparr>isReconnecting := b\<rparr>) = inv_R w"
  "inv_R (w\<lparr>isMounted := b\<rparr>) = inv_R w"
  "inv_R (w\<lparr>sockets := y\<rparr>) = inv_R w"
  "inv_R (w\<lparr>sbuffers := sbs\<rparr>) = inv_R w"
  "inv_R (w\<lparr>sources := z\<rparr>) = inv_R w"
  "inv_R (w\<lparr>buffer := bf\<rparr>) = inv_R w"
  "inv_R (w\<lparr>lastDataTime := l\<rparr>) = inv_R w"
  "inv_R (w\<lparr>sink_calls := sc\<rparr>) = inv_R w"
  "inv_R (updateStatus s w) = inv_R w"
  "inv_R (updateError er w) = inv_R w"
  by (simp_all add: inv_R_def updateStatus_def updateError_def)

lemma inv_upd [simp]:
  "inv (w\<lparr>isReconnecting := b\<rparr>) = inv w"
  "inv (w\<lparr>isMounted := b\<rparr>) = inv w"
  "inv (w\<lparr>sbuffers := sbs\<rparr>) = inv w"
  "inv (w\<lparr>sources := z\<rparr>) = inv w"
  "inv (w\<lparr>buffer := bf\<rparr>) = inv w"
  "inv (w\<lparr>lastDataTime := l\<rparr>) = inv w"
  "inv (w\<lparr>sink_calls := sc\<rparr>) = inv w"
  "inv (updateStatus s w) = inv w"
  "inv (updateError er w) = inv w"
  by (simp_all add: inv_def)

lemma reconnect_started:
  assumes "isMounted w" "\<not> isReconnecting w"
  shows "reconnect w =
    (updateStatus ''reconnecting'' (cleanup (w\<lparr>isReconnecting := True\<rparr>)))
      \<lparr>timers := (timers (cleanup (w\<lparr>isReconnecting := True\<rparr>)))(next_timer w \<mapsto> Timeout 2000),
       next_timer := Suc (next_timer w), reconnectTimer := Some (next_timer w)\<rparr>"
  using assms by (simp add: reconnect_def setTimer_def updateStatus_def Let_def)

lemma reconnect_skipped: "\<not> isMounted w \<or> isReconnecting w \<Longrightarrow> reconnect w = w"
  by (simp add: reconnect_def)

lemma inv_reconnect: "inv w \<Longrightarrow> inv (reconnect w)"
proof (cases "isMounted w \<and> \<not> isReconnecting w")
  case True
  assume "inv w"
  then have a: "inv_T w" "inv_W w" by (simp_all add: inv_def)
  let ?c = "cleanup (w\<lparr>isReconnecting := True\<rparr>)"
  from a have t: "\<And>t. timers ?c t = None" and l: "\<And>i. \<not> live (sockets ?c i)"
    by (simp_all add: inv_T_cleanup inv_W_cleanup)
  show ?thesis
    using True t l
    by (simp add: reconnect_started inv_def inv_T_def inv_W_def inv_R_def updateStatus_def)
next
  case False
  assume "inv w"
  with False show ?thesis by (simp add: reconnect_skipped)
qed

lemma inv_connect:
  assumes "inv_T w" "\<And>i. \<not> live (sockets w i)" "\<And>t d. timers w t \<noteq> Some (Timeout d)"
  shows "inv (connect e w)"
  using assms
  by (auto simp: connect_def Let_def updateStatus_def inv_def inv_T_def inv_W_def inv_R_def)

lemma inv_reconnect_fire:
  assumes "inv w" "timers w t = Some (Timeout d)"
  shows "inv (reconnect_fire e (clearTimer t w))"
proof -
  from assms have rt: "reconnectTimer w = Some t" and wn: "ws w = None"
    by (auto simp: inv_def inv_T_def inv_R_def)
  let ?c = "(clearTimer t w)\<lparr>isReconnecting := False\<rparr>"
  have T: "inv_T ?c" using assms by (auto simp: inv_def inv_T_def clearTimer_def)
  have L: "\<And>i. \<not> live (sockets ?c i)"
    using assms wn by (auto simp: inv_def inv_W_def clearTimer_def)
  have N: "\<And>t' d'. timers ?c t' \<noteq> Some (Timeout d')"
    using assms rt by (auto simp: inv_def inv_T_def clearTimer_def)
  have I: "inv ?c"
    using T L N wn by (auto simp: inv_def inv_W_def inv_R_def clearTimer_def)
  show ?thesis
    unfolding reconnect_fire_def Let_def
    using inv_connect[OF T L N] I by simp
qed

lemma inv_stalled_tick: "inv w \<Longrightarrow> inv (stalled_tick e w)"
  by (simp add: stalled_tick_def Let_def inv_reconnect)

lemma startStalledCheck_timers:
  "timers (startStalledCheck w) t =
     (if t = next_timer w then Some (Interval 2000)
      else if stalledCheckTimer w = Some t then None else timers w t)"
  by (simp add: startStalledCheck_def setTimer_def clearTimer_def Let_def split: option.splits)

lemma startStalledCheck_fields [simp]:
  "stalledCheckTimer (startStalledCheck w) = Some (next_timer w)"
  "reconnectTimer (startStalledCheck w) = reconnectTimer w"
  "ws (startStalledCheck w) = ws w"
  "sockets (startStalledCheck w) = sockets w"
  "statuses (startStalledCheck w) = statuses w"
  "errors (startStalledCheck w) = errors w"
  "buffer (startStalledCheck w) = buffer w"
  "sink_calls (startStalledCheck w) = sink_calls w"
  by (simp_all add: startStalledCheck_def setTimer_def clearTimer_def Let_def split: option.splits)

lemma inv_startStalledCheck:
  assumes "inv w"
  shows "inv (startStalledCheck w)"
proof -
  have T: "inv_T (startStalledCheck w)"
    unfolding inv_T_def
  proof (intro allI impI)
    fix t k
    assume a: "timers (startStalledCheck w) t = Some k"
    show "(reconnectTimer (startStalledCheck w) = Some t \<and> (\<exists>d. k = Timeout d)) \<or>
          (stalledCheckTimer (startStalledCheck w) = Some t \<and> (\<exists>d. k = Interval d))"
    proof (cases "t = next_timer w")
      case True
      with a show ?thesis by (auto simp: startStalledCheck_timers)
    next
      case False
      with a have b: "stalledCheckTimer w \<noteq> Some t" "timers w t = Some k"
        by (simp_all add: startStalledCheck_timers split: if_splits)
      with assms have "reconnectTimer w = Some t \<and> (\<exists>d. k = Timeout d)"
        unfolding inv_def inv_T_def by blast
      then show ?thesis by simp
    qed
  qed
  have W: "inv_W (startStalledCheck w)"
    using assms by (simp add: inv_def inv_W_def)
  have R: "inv_R (startStalledCheck w)"
    using assms by (auto simp: inv_def inv_R_def startStalledCheck_timers split: if_splits)
  show ?thesis using T W R by (simp add: inv_def)
qed

lemma inv_setupSourceBuffer: "inv w \<Longrightarrow> inv (setupSourceBuffer e c w)"
proof -
  assume a: "inv w"
  have "inv (w\<lparr>sbuffers := x, next_sb := n, sbUpdateHandler := h, sb := b\<rparr>)" for x n h b
    using a by (simp add: inv_def inv_T_def inv_W_def inv_R_def)
  then show ?thesis using a
    by (simp add: setupSourceBuffer_def Let_def inv_startStalledCheck split: option.splits)
qed

lemma inv_setupMSE: "inv w \<Longrightarrow> inv (setupMSE e w)"
  by (simp add: setupMSE_def inv_def inv_T_def inv_W_def inv_R_def updateStatus_def updateError_def)

lemma inv_appendBuffer: "inv w \<Longrightarrow> appendBuffer e b d w = (r, w') \<Longrightarrow> inv w'"
  by (auto simp: appendBuffer_def split: option.splits)

lemma inv_trimBuffer: "inv w \<Longrightarrow> inv (trimBuffer e w)"
  by (simp add: trimBuffer_def sb_remove_def Let_def split: option.splits)

lemma inv_appendData: "inv w \<Longrightarrow> inv (appendData e d w)"
  by (auto simp: appendData_def Let_def inv_trimBuffer
      split: option.splits prod.splits dest!: inv_appendBuffer[rotated])

lemma inv_sbUpdateHandler_run: "inv w \<Longrightarrow> inv (sbUpdateHandler_run e b w)"
  by (auto simp: sbUpdateHandler_run_def Let_def inv_trimBuffer
      split: option.splits prod.splits dest: inv_appendBuffer[rotated])

lemma inv_ws_send: "inv w \<Longrightarrow> inv (ws_send i m w)"
  by (simp add: ws_send_def inv_def inv_T_def inv_W_def inv_R_def live_def has_handler_def)

lemma inv_on_sourceopen: "inv w \<Longrightarrow> inv (on_sourceopen e w)"
  by (simp add: on_sourceopen_def Let_def inv_ws_send split: option.splits)

lemma inv_ws_onmessage: "inv w \<Longrightarrow> inv (ws_onmessage e m w)"
  by (cases m) (simp_all add: ws_onmessage_def inv_setupSourceBuffer inv_appendData inv_reconnect)

lemma inv_ws_onclose:
  assumes "inv w" "close_dispatched (sockets w i)"
  shows "inv (ws_onclose i w)"
proof (cases "ws w = Some i")
  case True
  have "inv (w\<lparr>ws := None\<rparr>)"
    using assms True by (auto simp: inv_def inv_T_def inv_W_def inv_R_def live_def)
  then show ?thesis using True
    by (simp add: ws_onclose_def inv_reconnect)
next
  case False
  then show ?thesis using assms by (simp add: ws_onclose_def)
qed

lemma inv_mark_closed:
  "inv w \<Longrightarrow> inv (w\<lparr>sockets := (sockets w)(i := (sockets w i)\<lparr>close_dispatched := True\<rparr>)\<rparr>)"
  by (simp add: inv_def inv_T_def inv_W_def inv_R_def live_def has_handler_def)

lemma inv_stop: "inv w \<Longrightarrow> inv (stop w)"
  using inv_cleanup[of "w\<lparr>isMounted := False\<rparr>"] by (simp add: stop_def inv_def)

lemma inv_step: "inv w \<Longrightarrow> inv (step e ev w)"
proof (cases ev)
  case (WsClose i)
  assume a: "inv w"
  show ?thesis using a inv_mark_closed[OF a, of i]
    by (simp add: step_def WsClose Let_def inv_ws_onclose)
next
  case (TimerFire t)
  assume a: "inv w"
  show ?thesis
  proof (cases "timers w t")
    case None
    then show ?thesis using a by (simp add: step_def TimerFire)
  next
    case (Some k)
    then show ?thesis using a
      by (cases k) (simp_all add: step_def TimerFire inv_reconnect_fire inv_stalled_tick)
  qed
next
  case (UpdateEnd b)
  assume a: "inv w"
  then show ?thesis
    by (simp add: step_def UpdateEnd Let_def inv_sbUpdateHandler_run)
next
  case (SourceOpen m)
  assume a: "inv w"
  then show ?thesis
    by (simp add: step_def SourceOpen inv_on_sourceopen)
qed (simp_all add: step_def ws_onopen_def ws_onerror_def inv_setupMSE inv_ws_onmessage inv_stop)

lemma inv_run: "inv w \<Longrightarrow> inv (run evs w)"
  by (induction evs arbitrary: w) (auto simp: inv_step)

lemma inv_init: "inv (init s m)"
  by (simp add: init_def inv_def inv_T_def inv_W_def inv_R_def live_def has_handler_def)

lemma inv_mount_init: "inv (mount e (init s m))"
proof -
  have "inv (connect e ((init s m)\<lparr>isMounted := True, isReconnecting := False\<rparr>))"
    by (rule inv_connect) (simp_all add: init_def inv_T_def live_def has_handler_def)
  then show ?thesis using inv_init by (simp add: mount_def)
qed

lemma reachable_inv: "reachable w \<Longrightarrow> inv w"
  by (auto simp: reachable_def inv_run inv_mount_init)

subsection \<open>Frames and silence\<close>

lemmas handler_defs = reconnect_def setTimer_def clearTimer_def updateStatus_def updateError_def
  connect_def reconnect_fire_def stalled_tick_def startStalledCheck_def appendBuffer_def
  sb_remove_def trimBuffer_def appendData_def sbUpdateHandler_run_def setupSourceBuffer_def
  setupMSE_def ws_send_def on_sourceopen_def ws_onopen_def ws_onmessage_def ws_onclose_def
  ws_onerror_def stop_def mount_def

lemma src_cleanup_upd [simp]: "src (cleanup w) = src w"
  by simp

lemma src_step [simp]: "src (step e ev w) = src w"
  by (cases ev)
     (auto simp: step_def handler_defs Let_def
       split: option.splits timer.splits ws_data.splits prod.splits)

lemma src_run [simp]: "src (run evs w) = src w"
  by (induction evs arbitrary: w) auto

lemma sink_frame [simp]:
  "timers (trimBuffer e w) = timers w" "sockets (trimBuffer e w) = sockets w"
  "statuses (trimBuffer e w) = statuses w" "errors (trimBuffer e w) = errors w"
  "buffer (trimBuffer e w) = buffer w" "sb (trimBuffer e w) = sb w"
  "lastDataTime (trimBuffer e w) = lastDataTime w"
  "timers (sbUpdateHandler_run e b w) = timers w" "sockets (sbUpdateHandler_run e b w) = sockets w"
  "statuses (sbUpdateHandler_run e b w) = statuses w" "errors (sbUpdateHandler_run e b w) = errors w"
  "timers (appendData e d w) = timers w" "sockets (appendData e d w) = sockets w"
  "statuses (appendData e d w) = statuses w" "errors (appendData e d w) = errors w"
  "lastDataTime (appendData e d w) = now e"
  by (simp_all add: trimBuffer_def sb_remove_def appendBuffer_def sbUpdateHandler_run_def
      appendData_def Let_def split: option.splits prod.splits)

lemma silent_step:
  assumes "silent w"
  shows "silent (step e ev w) \<and> statuses (step e ev w) = statuses w
         \<and> errors (step e ev w) = errors w"
proof (cases ev)
  case (WsOpen i)
  then show ?thesis using assms by (auto simp: step_def silent_def live_def has_handler_def)
next
  case (WsMessage i m)
  then show ?thesis using assms by (auto simp: step_def silent_def live_def has_handler_def)
next
  case (WsError i)
  then show ?thesis using assms by (auto simp: step_def silent_def live_def has_handler_def)
next
  case (WsClose i)
  then show ?thesis using assms
    by (auto simp: step_def silent_def live_def has_handler_def Let_def)
next
  case (TimerFire t)
  then show ?thesis using assms by (simp add: step_def silent_def)
next
  case (UpdateEnd b)
  then show ?thesis using assms by (simp add: step_def silent_def Let_def)
next
  case (SourceOpen m)
  then show ?thesis using assms
    by (simp add: step_def silent_def on_sourceopen_def ws_send_def Let_def live_def has_handler_def
        split: option.splits)
next
  case Stop
  then show ?thesis using assms
    by (simp add: step_def silent_def stop_def cleanup_timers cleanup_sockets live_def has_handler_def)
qed

lemma silent_run:
  "silent w \<Longrightarrow> silent (run evs w) \<and> statuses (run evs w) = statuses w
     \<and> errors (run evs w) = errors w"
proof (induction evs arbitrary: w)
  case Nil
  then show ?case by simp
next
  case (Cons a evs)
  obtain e ev where a: "a = (e, ev)" by (cases a)
  from silent_step[OF Cons.prems, of e ev] Cons.IH[of "step e ev w"] a
  show ?case by simp
qed

lemma silent_init: "silent (init s m)"
  by (simp add: silent_def init_def live_def has_handler_def)

lemma src_mount_init [simp]: "src (mount e (init s m)) = s"
  by (simp add: mount_def init_def connect_def updateStatus_def Let_def)

lemma reachable_empty_src:
  assumes "reachable w" "src w = []"
  shows "silent w"
proof -
  from assms(1) obtain e s m evs where w: "w = run evs (mount e (init s m))"
    unfolding reachable_def by blast
  with assms(2) have "s = []" by simp
  then have "mount e (init s m) = init s m" by (simp add: mount_def init_def)
  with w silent_run[OF silent_init, of evs s m] show ?thesis by simp
qed

lemma silent_stop: "reachable w \<Longrightarrow> silent (stop w)"
proof (cases "src w = []")
  case True
  assume "reachable w"
  with True show ?thesis by (simp add: stop_def reachable_empty_src)
next
  case False
  assume "reachable w"
  then have "inv w" by (rule reachable_inv)
  then have "inv_T (w\<lparr>isMounted := False\<rparr>)" "inv_W (w\<lparr>isMounted := False\<rparr>)"
    by (simp_all add: inv_def)
  then show ?thesis using False
    by (simp add: stop_def silent_def inv_T_cleanup inv_W_cleanup)
qed

lemma reachable_streaming_world: "reachable streaming_world"
  unfolding reachable_def streaming_world_def by (intro exI) (rule refl)

lemma streaming_world_statuses: "statuses streaming_world = [''connecting'', ''open'', ''streaming'']"
  by (simp add: streaming_world_def step_def handler_defs init_def readings_def Let_def)

lemma streaming_world_errors: "errors streaming_world = [None]"
  by (simp add: streaming_world_def step_def handler_defs init_def readings_def Let_def)

lemma streaming_world_timers: "timers streaming_world 1 = Some (Interval 2000)"
  by (simp add: streaming_world_def step_def handler_defs init_def readings_def Let_def)

subsection \<open>One reconnect at a time\<close>




lemma streaming_world_mounted:
  "isMounted streaming_world" "\<not> isReconnecting streaming_world"
  "next_timer streaming_world = 2"
  by (simp_all add: streaming_world_def step_def handler_defs init_def readings_def Let_def)

subsection \<open>The stall check\<close>

lemma stalled_tick_cases:
  "lastDataTime w = 0 \<Longrightarrow> stalled_tick e w = w"
  "lastDataTime w \<noteq> 0 \<Longrightarrow> now e - lastDataTime w \<le> 2000 \<Longrightarrow> stalled_tick e w = w"
  "lastDataTime w \<noteq> 0 \<Longrightarrow> now e - lastDataTime w > 2000 \<Longrightarrow>
     stalled_tick e w = reconnect (updateStatus ''stalled'' w)"
  by (simp_all add: stalled_tick_def Let_def)

lemma now_readings [simp]: "now (readings t) = t"
  by (simp add: readings_def)

lemma streaming_world_lastDataTime: "lastDataTime streaming_world = 1030"
  by (simp add: streaming_world_def step_def handler_defs init_def readings_def Let_def)

subsection \<open>The delay of the second TSX variant\<close>

lemma cleanup_ts_fields [simp]:
  "next_timer (cleanup_ts w) = next_timer w"
  "isMounted (cleanup_ts w) = isMounted w"
  "connectTS (cleanup_ts w) = connectTS w"
  "statuses (cleanup_ts w) = statuses w"
  by (simp_all add: cleanup_ts_def clearTimer_def Let_def split: option.splits)

lemma cleanup_ts_timers:
  "timers (cleanup_ts w) t = (if reconnectTimer w = Some t then None else timers w t)"
  by (simp add: cleanup_ts_def clearTimer_def Let_def split: option.splits)

lemma reconnect_ts_timer:
  assumes "isMounted w" "\<not> isReconnecting w"
  shows "timers (reconnect_ts e w) (next_timer w)
           = Some (Timeout (max (RECONNECT_TIMEOUT - (now e - connectTS w)) 0))"
    and "reconnectTimer (reconnect_ts e w) = Some (next_timer w)"
  using assms
  by (simp_all add: reconnect_ts_def setTimer_def updateStatus_def Let_def)

lemma connect_ts_fields:
  "connectTS (connect_ts e w) = now e" "isMounted (connect_ts e w) = isMounted w"
  "isReconnecting (connect_ts e w) = isReconnecting w"
  "next_timer (connect_ts e w) = next_timer w"
  "\<not> websocket_throws e \<Longrightarrow> ws (connect_ts e w) = Some (next_ws w)"
  by (simp_all add: connect_ts_def updateStatus_def Let_def)

lemma streaming_world_ws:
  "ws streaming_world = Some 0" "onclose (sockets streaming_world 0)"
  "\<not> close_dispatched (sockets streaming_world 0)"
  by (simp_all add: streaming_world_def step_def handler_defs init_def readings_def Let_def)

lemma close_schedules:
  assumes "ws w = Some i" "onclose (sockets w i)" "\<not> close_dispatched (sockets w i)"
    "isMounted w" "\<not> isReconnecting w"
  shows "timers (step e (WsClose i) w) (next_timer w) = Some (Timeout 2000)"
  using assms
  by (simp add: step_def ws_onclose_def Let_def reconnect_started updateStatus_def)

lemma close_statuses:
  assumes "ws w = Some i" "onclose (sockets w i)" "\<not> close_dispatched (sockets w i)"
    "isMounted w" "\<not> isReconnecting w"
  shows "statuses (step e (WsClose i) w) = statuses w @ [''closed'', ''reconnecting'']"
  using assms
  by (simp add: step_def ws_onclose_def Let_def reconnect_started updateStatus_def)

lemma init_ts_fields:
  "isMounted (init_ts s m)" "\<not> isReconnecting (init_ts s m)" "next_timer (init_ts s m) = 1"
  "next_ws (init_ts s m) = 0"
  by (simp_all add: init_ts_def init_def world.defs state.defs world_ts.defs)

subsection \<open>Codec selection\<close>

lemma getSupportedCodecs_filter:
  "getSupportedCodecs med isSupported
     = join (filter (\<lambda>c. includes_str med (kind_of c) \<and> isSupported (mime c)) codecsRef)"
  by (simp add: getSupportedCodecs_def kind_of_def conj_commute)

lemma codecs_all:
  "getSupportedCodecs ''video,audio'' (\<lambda>_. True)
     = ''avc1.640029,avc1.64002A,avc1.640033,hvc1.1.6.L153.B0,mp4a.40.2,mp4a.40.5,flac,opus''"
  by (simp add: getSupportedCodecs_def codecsRef_def)

lemma codecs_audio_only:
  "getSupportedCodecs ''audio'' (\<lambda>t. t \<noteq> mime ''flac'') = ''mp4a.40.2,mp4a.40.5,opus''"
  by (simp add: getSupportedCodecs_def codecsRef_def mime_def)

lemma negotiated_world_sent:
  "sent (sockets negotiated_world 0)
     = [[(''type'', ''mse''), (''value'', getSupportedCodecs ''video,audio'' (\<lambda>_. True))]]"
  by (simp add: negotiated_world_def step_def mount_def connect_def ws_onopen_def setupMSE_def
      on_sourceopen_def ws_send_def updateStatus_def updateError_def init_def readings_def Let_def)

lemma sourceopen_once: "step e' (SourceOpen m) (step e (SourceOpen m) w) = step e (SourceOpen m) w"
  by (simp add: step_def on_sourceopen_def ws_send_def Let_def split: option.splits)

subsection \<open>Flushing the segment buffer\<close>

lemma append_calls_append [simp]:
  "append_calls (xs @ ys) = append_calls xs @ append_calls ys"
  by (induction xs rule: append_calls.induct) auto

lemma trimBuffer_append_calls [simp]:
  "append_calls (sink_calls (trimBuffer e w)) = append_calls (sink_calls w)"
  by (simp add: trimBuffer_def sb_remove_def Let_def split: option.splits)

lemma trimBuffer_listener [simp]:
  "updateend_listener (sbuffers (trimBuffer e w) b) = updateend_listener (sbuffers w b)"
  by (simp add: trimBuffer_def sb_remove_def Let_def split: option.splits)

lemma flush_step:
  assumes "updateend_listener (sbuffers w b)" "0 < buf_length (buffer w)"
  shows "append_calls (sink_calls (step e (UpdateEnd b) w))
           = append_calls (sink_calls w) @ [(b, queued w, append_throws e)]"
    and "buffer (step e (UpdateEnd b) w)
           = (if append_throws e = None then (buffer w)\<lparr>buf_length := 0\<rparr> else buffer w)"
    and "updateend_listener (sbuffers (step e (UpdateEnd b) w) b)"
  using assms
  by (simp_all add: step_def sbUpdateHandler_run_def appendBuffer_def queued_def Let_def
      split: option.splits)

lemma no_flush_step:
  assumes "\<not> updateend_listener (sbuffers w b) \<or> buf_length (buffer w) = 0"
  shows "append_calls (sink_calls (step e (UpdateEnd b) w)) = append_calls (sink_calls w)"
    and "buffer (step e (UpdateEnd b) w) = buffer w"
  using assms
  by (auto simp: step_def sbUpdateHandler_run_def Let_def)

lemma flush_retries:
  assumes "updateend_listener (sbuffers w b)" "0 < buf_length (buffer w)"
    "\<forall>e \<in> set es. append_throws e \<noteq> None"
  shows "append_calls (sink_calls (run (map (\<lambda>e. (e, UpdateEnd b)) es) w))
           = append_calls (sink_calls w) @ map (\<lambda>e. (b, queued w, append_throws e)) es
         \<and> buffer (run (map (\<lambda>e. (e, UpdateEnd b)) es) w) = buffer w"
  using assms
proof (induction es arbitrary: w)
  case Nil
  then show ?case by simp
next
  case (Cons e es)
  let ?h = "step e (UpdateEnd b) w"
  from Cons.prems have t: "append_throws e \<noteq> None" by simp
  from flush_step[OF Cons.prems(1,2), of e] t
  have h: "append_calls (sink_calls ?h) = append_calls (sink_calls w) @ [(b, queued w, append_throws e)]"
    "buffer ?h = buffer w" "updateend_listener (sbuffers ?h b)"
    by simp_all
  then have q: "queued ?h = queued w" "0 < buf_length (buffer ?h)"
    using Cons.prems(2) by (simp_all add: queued_def)
  from Cons.IH[OF h(3) q(2)] Cons.prems(3) h q show ?case by simp
qed

lemma trim_requested:
  assumes "sb w = Some b" "\<not> updating (sbuffers w b)" "buffered e = Some ((s, f) # rs)"
    "currentTime e = Some ct" "double_minus e ct s > 10"
  shows "(b, Remove s (double_minus e ct 5), if remove_throws e then Some ''Error'' else None)
           \<in> set (sink_calls (trimBuffer e w))"
  using assms by (simp add: trimBuffer_def sb_remove_def Let_def)

lemma trimBuffer_calls_mono: "set (sink_calls w) \<subseteq> set (sink_calls (trimBuffer e w))"
  by (auto simp: trimBuffer_def sb_remove_def Let_def split: option.splits)

lemma flush_quota_trims:
  assumes "updateend_listener (sbuffers w b)" "0 < buf_length (buffer w)"
    "append_throws e = Some ''QuotaExceededError''"
    "sb w = Some b" "buffered e = Some ((s, f) # rs)" "currentTime e = Some ct"
    "double_minus e ct s > 10"
  shows "(b, Remove s (double_minus e ct 5), if remove_throws e then Some ''Error'' else None)
           \<in> set (sink_calls (step e (UpdateEnd b) w))"
proof -
  let ?w1 = "w\<lparr>sbuffers := (sbuffers w)(b := (sbuffers w b)\<lparr>updating := False\<rparr>)\<rparr>"
  let ?w2 = "?w1\<lparr>sink_calls := sink_calls ?w1 @
               [(b, AppendBuffer (subarray (data (buffer w)) (buf_length (buffer w))),
                 Some ''QuotaExceededError'')]\<rparr>"
  have s: "step e (UpdateEnd b) w = trimBuffer e (trimBuffer e ?w2)"
    using assms(1-3) by (simp add: step_def sbUpdateHandler_run_def appendBuffer_def Let_def)
  have "(b, Remove s (double_minus e ct 5), if remove_throws e then Some ''Error'' else None)
           \<in> set (sink_calls (trimBuffer e ?w2))"
    by (rule trim_requested) (use assms in simp_all)
  then show ?thesis using trimBuffer_calls_mono[of "trimBuffer e ?w2" e] s by auto
qed

lemma backlog_world_facts:
  "updateend_listener (sbuffers backlog_world 0)" "buf_length (buffer backlog_world) = 2"
  "sb backlog_world = Some 0" "queued backlog_world = [4, 5]"
  "append_calls (sink_calls backlog_world) = [(0, [1, 2, 3], None)]"
  by (simp_all add: backlog_world_def streaming_world_def step_def handler_defs init_def
      readings_def Let_def queued_def subarray_def set_bytes_def upt_rec)

lemma quota_readings_simps [simp]:
  "append_throws (quota_readings t) = Some ''QuotaExceededError''"
  "buffered (quota_readings t) = Some [(0, 30)]" "currentTime (quota_readings t) = Some 20"
  "remove_throws (quota_readings t) = False" "append_throws (readings t) = None"
  "double_minus (quota_readings t) = (\<lambda>x y. x - y)"
  by (simp_all add: quota_readings_def readings_def)

subsection \<open>What each event does to the segment buffer and to the SourceBuffer calls\<close>

lemma buffer_cleanup: "buffer (cleanup w) = (buffer w)\<lparr>buf_length := 0\<rparr>"
  by (simp add: cleanup_def Let_def clearTimer_def split: option.splits)

lemma reconnect_buffer:
  "sink_calls (reconnect w) = sink_calls w"
  "buffer (reconnect w) = buffer w \<or> buffer (reconnect w) = (buffer w)\<lparr>buf_length := 0\<rparr>"
  by (cases "isMounted w \<and> \<not> isReconnecting w";
      simp add: reconnect_started reconnect_skipped updateStatus_def buffer_cleanup)+

lemma connect_buffer [simp]:
  "sink_calls (connect e w) = sink_calls w" "buffer (connect e w) = buffer w"
  by (simp_all add: connect_def updateStatus_def Let_def)

lemma setupSourceBuffer_buffer [simp]:
  "sink_calls (setupSourceBuffer e c w) = sink_calls w" "buffer (setupSourceBuffer e c w) = buffer w"
  by (simp_all add: setupSourceBuffer_def updateStatus_def Let_def split: option.splits)

lemma quiet_step:
  assumes "\<And>i d. ev \<noteq> WsMessage i (Binary d)" "\<And>b. ev \<noteq> UpdateEnd b"
  shows "sink_calls (step e ev w) = sink_calls w
     \<and> (buffer (step e ev w) = buffer w \<or> buffer (step e ev w) = (buffer w)\<lparr>buf_length := 0\<rparr>)"
proof (cases ev)
  case (WsOpen i)
  then show ?thesis
    by (simp add: step_def ws_onopen_def setupMSE_def updateStatus_def updateError_def)
next
  case (WsMessage i m)
  with assms(1) show ?thesis
    using reconnect_buffer[of "updateStatus ''error'' (updateError (Some v) w)" for v]
    by (cases m) (auto simp: step_def ws_onmessage_def updateStatus_def updateError_def)
next
  case (WsClose i)
  then show ?thesis
    using reconnect_buffer[of "updateStatus ''closed''
        (w\<lparr>sockets := (sockets w)(i := (sockets w i)\<lparr>close_dispatched := True\<rparr>), ws := None\<rparr>)"]
    by (auto simp: step_def ws_onclose_def Let_def updateStatus_def)
next
  case (WsError i)
  then show ?thesis by (simp add: step_def ws_onerror_def updateStatus_def updateError_def)
next
  case (TimerFire t)
  show ?thesis
  proof (cases "timers w t")
    case None
    then show ?thesis by (simp add: step_def TimerFire)
  next
    case (Some k)
    then show ?thesis
      using reconnect_buffer[of "updateStatus ''stalled'' w"]
      by (cases k)
         (auto simp: step_def TimerFire reconnect_fire_def clearTimer_def stalled_tick_def Let_def
           updateStatus_def)
  qed
next
  case (UpdateEnd b)
  with assms(2)[of b] show ?thesis by blast
next
  case (SourceOpen m)
  then show ?thesis
    by (simp add: step_def on_sourceopen_def ws_send_def Let_def split: option.splits)
next
  case Stop
  then show ?thesis by (simp add: step_def stop_def buffer_cleanup)
qed

lemma appendData_queue:
  assumes "sb w = Some b" "updating (sbuffers w b) \<or> 0 < buf_length (buffer w)"
  shows "sink_calls (appendData e d w) = sink_calls w"
    and "buf_length (buffer w) + length d \<le> data_length (buffer w) \<Longrightarrow>
         buffer (appendData e d w)
           = (buffer w)\<lparr>data := set_bytes (data (buffer w)) d (buf_length (buffer w)),
                        buf_length := buf_length (buffer w) + length d\<rparr>"
    and "data_length (buffer w) < buf_length (buffer w) + length d \<Longrightarrow>
         buffer (appendData e d w) = buffer w"
  using assms by (auto simp: appendData_def Let_def)

lemma appendData_direct:
  assumes "sb w = Some b" "\<not> updating (sbuffers w b)" "buf_length (buffer w) = 0"
  shows "buffer (appendData e d w) = buffer w"
    and "append_calls (sink_calls (appendData e d w))
           = append_calls (sink_calls w) @ [(b, d, append_throws e)]"
  using assms by (auto simp: appendData_def appendBuffer_def Let_def split: option.splits)

lemma appendData_no_sink:
  assumes "sb w = None"
  shows "buffer (appendData e d w) = buffer w" "sink_calls (appendData e d w) = sink_calls w"
  using assms by (simp_all add: appendData_def Let_def)

lemma subarray_set_bytes:
  "subarray (set_bytes arena d n) (n + length d) = subarray arena n @ d"
proof -
  have "map (set_bytes arena d n) [0..<n] = map arena [0..<n]"
    by (simp add: set_bytes_def)
  moreover have "map (set_bytes arena d n) [n..<n + length d] = d"
    by (rule nth_equalityI) (simp_all add: set_bytes_def)
  moreover have "[0..<n + length d] = [0..<n] @ [n..<n + length d]"
    by (rule upt_add_eq_append) simp
  ultimately show ?thesis
    by (simp add: subarray_def)
qed

lemma queued_appendData:
  assumes "sb w = Some b" "updating (sbuffers w b) \<or> 0 < buf_length (buffer w)"
    "buf_length (buffer w) + length d \<le> data_length (buffer w)"
  shows "queued (appendData e d w) = queued w @ d"
  using appendData_queue(2)[OF assms] by (simp add: queued_def subarray_set_bytes)

subsection \<open>The buffer stays within its arena\<close>

lemma buffer_ok_appendData: "buffer_ok w \<Longrightarrow> buffer_ok (appendData e d w)"
proof (cases "sb w")
  case None
  assume "buffer_ok w"
  with None show ?thesis by (simp add: buffer_ok_def appendData_no_sink)
next
  case (Some b)
  assume ok: "buffer_ok w"
  show ?thesis
  proof (cases "updating (sbuffers w b) \<or> 0 < buf_length (buffer w)")
    case True
    show ?thesis
    proof (cases "buf_length (buffer w) + length d \<le> data_length (buffer w)")
      case True
      with appendData_queue(2)[where w=w and b=b and e=e and d=d] Some
        \<open>updating (sbuffers w b) \<or> 0 < buf_length (buffer w)\<close> ok
      show ?thesis by (simp add: buffer_ok_def)
    next
      case False
      with appendData_queue(3)[where w=w and b=b and e=e and d=d] Some
        \<open>updating (sbuffers w b) \<or> 0 < buf_length (buffer w)\<close> ok
      show ?thesis by (simp add: buffer_ok_def)
    qed
  next
    case False
    with appendData_direct(1)[where w=w and b=b and e=e and d=d] Some ok show ?thesis by (simp add: buffer_ok_def)
  qed
qed

lemma buffer_ok_step: "buffer_ok w \<Longrightarrow> buffer_ok (step e ev w)"
proof -
  assume ok: "buffer_ok w"
  consider (seg) i d where "ev = WsMessage i (Binary d)" | (upd) b where "ev = UpdateEnd b"
    | (other) "\<And>i d. ev \<noteq> WsMessage i (Binary d)" "\<And>b. ev \<noteq> UpdateEnd b"
    by blast
  then show ?thesis
  proof cases
    case seg
    then show ?thesis using ok buffer_ok_appendData[OF ok]
      by (simp add: step_def ws_onmessage_def)
  next
    case upd
    show ?thesis
    proof (cases "updateend_listener (sbuffers w b) \<and> 0 < buf_length (buffer w)")
      case True
      with flush_step(2)[of w b e] ok upd show ?thesis by (simp add: buffer_ok_def)
    next
      case False
      with no_flush_step(2)[of w b e] ok upd show ?thesis by (auto simp: buffer_ok_def)
    qed
  next
    case other
    from quiet_step[of ev e w, OF other] ok show ?thesis by (auto simp: buffer_ok_def)
  qed
qed

lemma buffer_ok_run: "buffer_ok w \<Longrightarrow> buffer_ok (run evs w)"
  by (induction evs arbitrary: w) (auto simp: buffer_ok_step)

lemma buffer_ok_reachable: "reachable w \<Longrightarrow> buffer_ok w"
proof -
  have "buffer_ok (mount e (init s m))" for e s m
    by (simp add: mount_def buffer_ok_def init_def)
  then show "reachable w \<Longrightarrow> buffer_ok w"
    by (auto simp: reachable_def buffer_ok_run)
qed

lemma reachable_step: "reachable w \<Longrightarrow> reachable (step e ev w)"
proof -
  assume "reachable w"
  then obtain e0 s m evs where "w = run evs (mount e0 (init s m))"
    unfolding reachable_def by blast
  then have "step e ev w = run (evs @ [(e, ev)]) (mount e0 (init s m))"
    by (simp add: run_append)
  then show ?thesis unfolding reachable_def by blast
qed

lemma reachable_backlog_world: "reachable backlog_world"
  unfolding backlog_world_def by (rule reachable_step) (rule reachable_streaming_world)

subsection \<open>Segments reach the SourceBuffers in arrival order\<close>

lemma accepted_same:
  "append_calls (sink_calls w') = append_calls (sink_calls w) \<Longrightarrow> accepted w' = accepted w"
  by (simp add: accepted_def)

lemma accepted_snoc:
  "append_calls (sink_calls w') = append_calls (sink_calls w) @ [(b, d, r)] \<Longrightarrow>
   accepted w' = accepted w @ (if r = None then [(b, d)] else [])"
  by (simp add: accepted_def)

lemma queued_empty: "buf_length (buffer w) = 0 \<Longrightarrow> queued w = []"
  by (simp add: queued_def subarray_def)

lemma in_order_keep:
  assumes "in_order w A" "accepted w' = accepted w"
    "buffer w' = buffer w \<or> buffer w' = (buffer w)\<lparr>buf_length := 0\<rparr>"
  shows "in_order w' A"
proof -
  from assms(1) obtain tds qs where
    h: "accepted w = map (\<lambda>(b, ds). (b, concat ds)) tds" "queued w = concat qs"
       "subseq (concat (map snd tds) @ qs) A"
    unfolding in_order_def by blast
  from assms(3) show ?thesis
  proof
    assume "buffer w' = buffer w"
    then have "queued w' = concat qs" using h(2) by (simp add: queued_def)
    with h assms(2) show ?thesis unfolding in_order_def by auto
  next
    assume "buffer w' = (buffer w)\<lparr>buf_length := 0\<rparr>"
    then have "queued w' = concat []" by (simp add: queued_empty)
    moreover from h(3) have "subseq (concat (map snd tds) @ []) A"
      by (metis append_Nil2 list_emb_prefix subseq_order.order_refl subseq_order.trans)
    ultimately show ?thesis using h(1) assms(2) unfolding in_order_def by metis
  qed
qed

lemma in_order_more: "in_order w A \<Longrightarrow> in_order w (A @ B)"
  unfolding in_order_def by (meson subseq_rev_drop_many)

lemma in_order_enqueue:
  assumes "in_order w A" "accepted w' = accepted w" "queued w' = queued w @ d"
  shows "in_order w' (A @ [d])"
proof -
  from assms(1) obtain tds qs where
    h: "accepted w = map (\<lambda>(b, ds). (b, concat ds)) tds" "queued w = concat qs"
       "subseq (concat (map snd tds) @ qs) A"
    unfolding in_order_def by blast
  have "queued w' = concat (qs @ [d])" using assms(3) h(2) by simp
  moreover have "subseq (concat (map snd tds) @ (qs @ [d])) (A @ [d])"
    using list_emb_append_mono[OF h(3), of "[d]" "[d]"] by simp
  ultimately show ?thesis using h(1) assms(2) unfolding in_order_def by metis
qed

lemma in_order_direct:
  assumes "in_order w A" "accepted w' = accepted w @ [(b, d)]"
    "buf_length (buffer w) = 0" "buffer w' = buffer w"
  shows "in_order w' (A @ [d])"
proof -
  from assms(1) obtain tds qs where
    h: "accepted w = map (\<lambda>(b, ds). (b, concat ds)) tds" "queued w = concat qs"
       "subseq (concat (map snd tds) @ qs) A"
    unfolding in_order_def by blast
  from h(3) have s: "subseq (concat (map snd tds)) A"
    by (metis list_emb_prefix subseq_order.order_refl subseq_order.trans)
  have a: "accepted w' = map (\<lambda>(b, ds). (b, concat ds)) (tds @ [(b, [d])])"
    using assms(2) h(1) by simp
  have q: "queued w' = concat []" using assms(3,4) by (simp add: queued_def subarray_def)
  have "subseq (concat (map snd (tds @ [(b, [d])])) @ []) (A @ [d])"
    using list_emb_append_mono[OF s, of "[d]" "[d]"] by simp
  with a q show ?thesis unfolding in_order_def by blast
qed

lemma in_order_flush:
  assumes "in_order w A" "accepted w' = accepted w @ [(b, queued w)]"
    "buffer w' = (buffer w)\<lparr>buf_length := 0\<rparr>"
  shows "in_order w' A"
proof -
  from assms(1) obtain tds qs where
    h: "accepted w = map (\<lambda>(b, ds). (b, concat ds)) tds" "queued w = concat qs"
       "subseq (concat (map snd tds) @ qs) A"
    unfolding in_order_def by blast
  have a: "accepted w' = map (\<lambda>(b, ds). (b, concat ds)) (tds @ [(b, qs)])"
    using assms(2) h(1,2) by simp
  have q: "queued w' = concat []" using assms(3) by (simp add: queued_def subarray_def)
  have "subseq (concat (map snd (tds @ [(b, qs)])) @ []) A"
    using h(3) by simp
  with a q show ?thesis unfolding in_order_def by blast
qed

lemma in_order_appendData:
  assumes "in_order w A"
  shows "in_order (appendData e d w) (A @ [d])"
proof (cases "sb w")
  case None
  then have "in_order (appendData e d w) A"
    using assms by (intro in_order_keep[OF assms]) (simp_all add: appendData_no_sink accepted_def)
  then show ?thesis by (rule in_order_more)
next
  case (Some b)
  show ?thesis
  proof (cases "updating (sbuffers w b) \<or> 0 < buf_length (buffer w)")
    case True
    note q = appendData_queue[where w=w and b=b and e=e and d=d, OF Some True]
    show ?thesis
    proof (cases "buf_length (buffer w) + length d \<le> data_length (buffer w)")
      case True
      show ?thesis
        by (rule in_order_enqueue[OF assms])
           (simp_all add: q(1) accepted_def
              queued_appendData[OF Some \<open>updating (sbuffers w b) \<or> 0 < buf_length (buffer w)\<close> True])
    next
      case False
      then have "in_order (appendData e d w) A"
        using q by (intro in_order_keep[OF assms]) (simp_all add: accepted_def)
      then show ?thesis by (rule in_order_more)
    qed
  next
    case False
    then have f: "\<not> updating (sbuffers w b)" "buf_length (buffer w) = 0" by simp_all
    note dr = appendData_direct[where w=w and b=b and e=e and d=d, OF Some f]
    show ?thesis
    proof (cases "append_throws e")
      case None
      show ?thesis
        by (rule in_order_direct[OF assms _ f(2) dr(1)])
           (simp add: accepted_snoc[OF dr(2)] None)
    next
      case (Some name)
      have "in_order (appendData e d w) A"
        by (rule in_order_keep[OF assms]) (simp_all add: accepted_snoc[OF dr(2)] Some dr(1))
      then show ?thesis by (rule in_order_more)
    qed
  qed
qed

lemma in_order_step:
  assumes "in_order w A"
  shows "in_order (step e ev w) (A @ segment_of ev)"
proof -
  consider (seg) i d where "ev = WsMessage i (Binary d)" | (upd) b where "ev = UpdateEnd b"
    | (other) "\<And>i d. ev \<noteq> WsMessage i (Binary d)" "\<And>b. ev \<noteq> UpdateEnd b"
    by blast
  then show ?thesis
  proof cases
    case seg
    then show ?thesis
      using in_order_appendData[OF assms, of e d] in_order_more[OF assms, of "[d]"]
      by (simp add: step_def ws_onmessage_def segment_of_def)
  next
    case upd
    have "in_order (step e (UpdateEnd b) w) A"
    proof (cases "updateend_listener (sbuffers w b) \<and> 0 < buf_length (buffer w)")
      case True
      note fl = flush_step[of w b e]
      show ?thesis
      proof (cases "append_throws e")
        case None
        show ?thesis
          by (rule in_order_flush[OF assms, of _ b])
             (use True fl None in \<open>simp_all add: accepted_snoc[of _ w b "queued w" None]\<close>)
      next
        case (Some name)
        show ?thesis
          by (rule in_order_keep[OF assms])
             (use True fl Some in \<open>simp_all add: accepted_snoc[of _ w b "queued w" "Some name"]\<close>)
      qed
    next
      case False
      then show ?thesis
        using no_flush_step[of w b e]
        by (intro in_order_keep[OF assms]) (auto simp: accepted_def)
    qed
    then show ?thesis using upd by (simp add: segment_of_def)
  next
    case other
    have "segment_of ev = []"
      using other(1) by (auto simp: segment_of_def split: event.splits ws_data.splits)
    moreover have "in_order (step e ev w) A"
      using quiet_step[of ev e w, OF other]
      by (intro in_order_keep[OF assms]) (auto simp: accepted_def)
    ultimately show ?thesis by simp
  qed
qed

lemma in_order_run: "in_order w A \<Longrightarrow> in_order (run evs w) (A @ arrivals evs)"
proof (induction evs arbitrary: w A)
  case Nil
  then show ?case by (simp add: arrivals_def)
next
  case (Cons a evs)
  obtain e ev where a: "a = (e, ev)" by (cases a)
  from Cons.IH[OF in_order_step[OF Cons.prems, of e ev]] a
  show ?case by (simp add: arrivals_def)
qed

lemma in_order_start: "in_order (mount e (init s m)) []"
proof -
  have "accepted (mount e (init s m)) = []" "queued (mount e (init s m)) = []"
    by (simp_all add: accepted_def queued_def subarray_def mount_def init_def)
  then have "accepted (mount e (init s m)) = map (\<lambda>(b, ds). (b, concat ds)) []
     \<and> queued (mount e (init s m)) = concat []
     \<and> subseq (concat (map snd ([] :: (nat \<times> bytes list) list)) @ []) []"
    by simp
  then show ?thesis unfolding in_order_def by blast
qed

lemma subseq_concat_filter:
  "subseq (concat (map snd (filter P tds))) (concat (map snd tds))"
proof (induction tds)
  case Nil
  then show ?case by simp
next
  case (Cons a tds)
  show ?case
  proof (cases "P a")
    case True
    with Cons show ?thesis by (simp add: subseq_append')
  next
    case False
    with Cons show ?thesis by (simp add: list_emb_append2)
  qed
qed

lemma delivered_groups:
  "accepted w = map (\<lambda>(b, ds). (b, concat ds)) tds \<Longrightarrow> delivered w = map concat (map snd tds)"
  "accepted w = map (\<lambda>(b, ds). (b, concat ds)) tds \<Longrightarrow>
     delivered_to b w = map concat (map snd (filter (\<lambda>(b', ds). b' = b) tds))"
proof -
  have a: "map snd (map (\<lambda>(b, ds). (b, concat ds)) tds) = map concat (map snd tds)"
    by (induction tds) auto
  have b: "map snd (filter (\<lambda>(b', d). b' = b) (map (\<lambda>(b, ds). (b, concat ds)) tds))
     = map concat (map snd (filter (\<lambda>(b', ds). b' = b) tds))"
    by (induction tds) auto
  show "accepted w = map (\<lambda>(b, ds). (b, concat ds)) tds \<Longrightarrow> delivered w = map concat (map snd tds)"
    using a by (simp add: delivered_def)
  show "accepted w = map (\<lambda>(b, ds). (b, concat ds)) tds \<Longrightarrow>
     delivered_to b w = map concat (map snd (filter (\<lambda>(b', ds). b' = b) tds))"
    using b by (simp add: delivered_to_def)
qed

lemma delivered_example:
  "delivered (run [(readings 1050, WsMessage 0 (Binary [6, 7])), (readings 1100, UpdateEnd 0),
                   (readings 1110, WsMessage 0 (Binary [8])), (readings 1200, UpdateEnd 0)]
                backlog_world)
     = [[1, 2, 3], [4, 5, 6, 7], [8]]"
  by (simp add: backlog_world_def streaming_world_def step_def handler_defs init_def readings_def
      Let_def delivered_def accepted_def subarray_def set_bytes_def upt_rec)

subsection \<open>No more messages than MediaSources\<close>

lemma sum_upd_in:
  fixes g :: "nat \<Rightarrow> nat"
  assumes "i < n"
  shows "(\<Sum>j<n. (g(i := v)) j) + g i = (\<Sum>j<n. g j) + v"
proof -
  have i: "i \<in> {..<n}" using assms by simp
  have "(\<Sum>j<n. (g(i := v)) j) = v + (\<Sum>j\<in>{..<n} - {i}. (g(i := v)) j)"
    using sum.remove[OF _ i, of "g(i := v)"] by simp
  moreover have "(\<Sum>j\<in>{..<n} - {i}. (g(i := v)) j) = (\<Sum>j\<in>{..<n} - {i}. g j)"
    by (rule sum.cong) auto
  moreover have "(\<Sum>j<n. g j) = g i + (\<Sum>j\<in>{..<n} - {i}. g j)"
    using sum.remove[OF _ i, of g] by simp
  ultimately show ?thesis by simp
qed

lemma sum_upd_out:
  fixes g :: "nat \<Rightarrow> nat"
  shows "n \<le> i \<Longrightarrow> (\<Sum>j<n. (g(i := v)) j) = (\<Sum>j<n. g j)"
  by (rule sum.cong) auto

lemma msg_frame_refl [simp]: "msg_frame w w"
  by (simp add: msg_frame_def)

lemma msg_frame_trans: "msg_frame w w' \<Longrightarrow> msg_frame w' w'' \<Longrightarrow> msg_frame w w''"
  by (auto simp: msg_frame_def)

lemma msg_ok_frame: "msg_ok w \<Longrightarrow> msg_frame w w' \<Longrightarrow> msg_ok w'"
  by (auto simp: msg_ok_def msg_frame_def sent_count_def pending_sources_def)

lemma msg_frame_cleanup: "msg_frame w (cleanup w)"
  by (simp add: msg_frame_def cleanup_sockets)
     (simp add: cleanup_def Let_def clearTimer_def split: option.splits)

lemma msg_frame_reconnect: "msg_frame w (reconnect w)"
proof (cases "isMounted w \<and> \<not> isReconnecting w")
  case True
  have "msg_frame (w\<lparr>isReconnecting := True\<rparr>) (cleanup (w\<lparr>isReconnecting := True\<rparr>))"
    by (rule msg_frame_cleanup)
  then show ?thesis using True
    by (simp add: reconnect_started updateStatus_def msg_frame_def)
next
  case False
  then show ?thesis by (simp add: reconnect_skipped)
qed

lemma msg_frame_upd [simp]:
  "msg_frame (updateStatus s w) w' = msg_frame w w'"
  "msg_frame (updateError er w) w' = msg_frame w w'"
  "msg_frame w (updateStatus s w') = msg_frame w w'"
  "msg_frame w (updateError er w') = msg_frame w w'"
  by (simp_all add: msg_frame_def updateStatus_def updateError_def)

lemma msg_frame_sink:
  "msg_frame w (trimBuffer e w)" "msg_frame w (appendData e d w)"
  "msg_frame w (sbUpdateHandler_run e b w)" "msg_frame w (setupSourceBuffer e c w)"
  by (simp_all add: msg_frame_def trimBuffer_def sb_remove_def appendBuffer_def appendData_def
      sbUpdateHandler_run_def setupSourceBuffer_def startStalledCheck_def setTimer_def
      clearTimer_def updateStatus_def Let_def split: option.splits prod.splits)

lemma msg_ok_connect:
  assumes "msg_ok w"
  shows "msg_ok (connect e w)"
proof (cases "websocket_throws e")
  case True
  then show ?thesis using assms
    by (simp add: connect_def Let_def updateStatus_def msg_ok_def sent_count_def
        pending_sources_def)
next
  case False
  let ?c = "connect e w"
  have n: "next_ws ?c = Suc (next_ws w)" "next_ms ?c = next_ms w" "sources ?c = sources w"
    "ws ?c = Some (next_ws w)" "sent (sockets ?c (next_ws w)) = []"
    "\<And>j. j \<noteq> next_ws w \<Longrightarrow> sockets ?c j = sockets w j"
    using False by (simp_all add: connect_def Let_def updateStatus_def)
  have "(\<Sum>j<next_ws w. length (sent (sockets ?c j))) = (\<Sum>j<next_ws w. length (sent (sockets w j)))"
    by (rule sum.cong) (simp_all add: n(6))
  then have s: "sent_count ?c = sent_count w"
    by (simp add: sent_count_def n(1,5))
  have p: "pending_sources ?c = pending_sources w"
    by (simp add: pending_sources_def n(2,3))
  have e: "\<And>i. next_ws ?c \<le> i \<Longrightarrow> sent (sockets ?c i) = []"
    using assms n(1,6) by (simp add: msg_ok_def)
  have f: "\<And>i. \<forall>msg \<in> set (sent (sockets ?c i)). \<exists>v. msg = [(''type'', ''mse''), (''value'', v)]"
  proof -
    fix i
    show "\<forall>msg \<in> set (sent (sockets ?c i)). \<exists>v. msg = [(''type'', ''mse''), (''value'', v)]"
      using assms n(5) n(6)[of i] by (cases "i = next_ws w") (simp_all add: msg_ok_def)
  qed
  show ?thesis
    unfolding msg_ok_def using assms s p e f n(1-4) by (simp add: msg_ok_def)
qed

lemma msg_ok_setupMSE:
  assumes "msg_ok w"
  shows "msg_ok (setupMSE e w)"
proof (cases "has_MediaSource e")
  case False
  then show ?thesis using assms
    by (simp add: setupMSE_def updateStatus_def updateError_def msg_ok_def sent_count_def
        pending_sources_def)
next
  case True
  let ?c = "setupMSE e w"
  have n: "next_ms ?c = Suc (next_ms w)" "next_ws ?c = next_ws w" "sockets ?c = sockets w"
    "ws ?c = ws w" "sourceopen_listener (sources ?c (next_ms w))"
    "\<And>j. j \<noteq> next_ms w \<Longrightarrow> sources ?c j = sources w j"
    using True by (simp_all add: setupMSE_def)
  have "(\<Sum>j<next_ms w. if sourceopen_listener (sources ?c j) then 1 else (0::nat))
      = (\<Sum>j<next_ms w. if sourceopen_listener (sources w j) then 1 else 0)"
    by (rule sum.cong) (simp_all add: n(6))
  then have p: "pending_sources ?c = pending_sources w + 1"
    by (simp add: pending_sources_def n(1,5))
  have s: "sent_count ?c = sent_count w"
    by (simp add: sent_count_def n(2,3))
  have l: "\<And>m. next_ms ?c \<le> m \<Longrightarrow> \<not> sourceopen_listener (sources ?c m)"
    using assms n(1,6) by (simp add: msg_ok_def)
  show ?thesis
    unfolding msg_ok_def using assms s p l n(1-4) by (simp add: msg_ok_def)
qed

lemma msg_ok_sourceopen:
  assumes "msg_ok w"
  shows "msg_ok (step e (SourceOpen m) w)"
proof (cases "sourceopen_listener (sources w m)")
  case False
  then show ?thesis using assms by (simp add: step_def)
next
  case True
  with assms have m: "m < next_ms w" unfolding msg_ok_def by (meson not_le)
  define g where "g = (\<lambda>j. if sourceopen_listener (sources w j) then 1 else (0::nat))"
  let ?c = "step e (SourceOpen m) w"
  have n: "next_ms ?c = next_ms w" "next_ws ?c = next_ws w" "ws ?c = ws w"
    "\<not> sourceopen_listener (sources ?c m)"
    "\<And>j. j \<noteq> m \<Longrightarrow> sources ?c j = sources w j"
    using True
    by (simp_all add: step_def on_sourceopen_def ws_send_def Let_def split: option.splits)
  have "(\<Sum>j<next_ms w. if sourceopen_listener (sources ?c j) then 1 else (0::nat))
      = (\<Sum>j<next_ms w. (g(m := 0)) j)"
    by (rule sum.cong) (simp_all add: g_def n(4,5))
  moreover have "(\<Sum>j<next_ms w. (g(m := 0)) j) + g m = (\<Sum>j<next_ms w. g j) + 0"
    by (rule sum_upd_in[OF m])
  moreover have "g m = 1" using True by (simp add: g_def)
  ultimately have p: "pending_sources ?c + 1 = pending_sources w"
    by (simp add: pending_sources_def n(1) g_def)
  have l: "\<And>k. next_ms ?c \<le> k \<Longrightarrow> \<not> sourceopen_listener (sources ?c k)"
  proof -
    fix k assume "next_ms ?c \<le> k"
    then show "\<not> sourceopen_listener (sources ?c k)"
      using assms n(1,4) n(5)[of k] by (cases "k = m") (simp_all add: msg_ok_def)
  qed
  show ?thesis
  proof (cases "ws w")
    case None
    then have "sockets ?c = sockets w"
      using True by (simp add: step_def on_sourceopen_def Let_def)
    then have s: "sent_count ?c = sent_count w" by (simp add: sent_count_def n(2))
    show ?thesis
      unfolding msg_ok_def using assms s p l n(1-3) \<open>sockets ?c = sockets w\<close>
      by (simp add: msg_ok_def)
  next
    case (Some i)
    with assms have i: "i < next_ws w" unfolding msg_ok_def by blast
    define h where "h = (\<lambda>j. length (sent (sockets w j)))"
    have k: "sent (sockets ?c i) = sent (sockets w i)
         @ [[(''type'', ''mse''), (''value'', getSupportedCodecs (media w) (isTypeSupported e))]]"
      "\<And>j. j \<noteq> i \<Longrightarrow> sockets ?c j = sockets w j"
      using True Some by (simp_all add: step_def on_sourceopen_def ws_send_def Let_def)
    have "(\<Sum>j<next_ws w. length (sent (sockets ?c j))) = (\<Sum>j<next_ws w. (h(i := h i + 1)) j)"
      by (rule sum.cong) (simp_all add: h_def k)
    moreover have "(\<Sum>j<next_ws w. (h(i := h i + 1)) j) + h i = (\<Sum>j<next_ws w. h j) + (h i + 1)"
      by (rule sum_upd_in[OF i])
    ultimately have s: "sent_count ?c = sent_count w + 1"
      by (simp add: sent_count_def n(2) h_def)
    have e: "\<And>j. next_ws ?c \<le> j \<Longrightarrow> sent (sockets ?c j) = []"
    proof -
      fix j assume "next_ws ?c \<le> j"
      then show "sent (sockets ?c j) = []"
        using assms i k(2)[of j] n(2) by (cases "j = i") (simp_all add: msg_ok_def)
    qed
    have f: "\<And>j. \<forall>msg \<in> set (sent (sockets ?c j)). \<exists>v. msg = [(''type'', ''mse''), (''value'', v)]"
    proof -
      fix j
      show "\<forall>msg \<in> set (sent (sockets ?c j)). \<exists>v. msg = [(''type'', ''mse''), (''value'', v)]"
        using assms k(1) k(2)[of j] by (cases "j = i") (auto simp: msg_ok_def)
    qed
    show ?thesis
      unfolding msg_ok_def using assms s p l e f n(1-3) by (simp add: msg_ok_def)
  qed
qed

text \<open>Every step either sends and creates nothing, or sets up a MediaSource on an open
  event, or connects, or is a \<^verbatim>\<open>sourceopen\<close>.\<close>

lemma step_msg_cases:
  "msg_frame w (step e ev w)
   \<or> (is_open ev \<and> (\<exists>w1. msg_frame w w1 \<and> step e ev w = setupMSE e w1))
   \<or> (\<exists>w1. msg_frame w w1 \<and> step e ev w = connect e w1)
   \<or> (\<exists>m. ev = SourceOpen m)"
proof (cases ev)
  case (WsOpen i)
  show ?thesis
  proof (cases "\<not> close_dispatched (sockets w i) \<and> onopen (sockets w i)")
    case True
    have "msg_frame w (updateError None (updateStatus ''open'' w))
        \<and> step e ev w = setupMSE e (updateError None (updateStatus ''open'' w))"
      using True by (simp add: step_def WsOpen ws_onopen_def)
    then have "\<exists>w1. msg_frame w w1 \<and> step e ev w = setupMSE e w1" by blast
    then show ?thesis by (simp add: WsOpen is_open_def)
  next
    case False
    then show ?thesis by (auto simp: step_def WsOpen)
  qed
next
  case (WsMessage i m)
  have "msg_frame w (ws_onmessage e m w)"
    using msg_frame_reconnect[of "updateStatus ''error'' (updateError (Some v) w)" for v]
    by (cases m) (simp_all add: ws_onmessage_def msg_frame_sink)
  then show ?thesis by (simp add: step_def WsMessage)
next
  case (WsClose i)
  let ?w1 = "w\<lparr>sockets := (sockets w)(i := (sockets w i)\<lparr>close_dispatched := True\<rparr>)\<rparr>"
  have f1: "msg_frame w ?w1" by (simp add: msg_frame_def)
  have "msg_frame ?w1 (?w1\<lparr>ws := None\<rparr>)" by (simp add: msg_frame_def)
  then have "msg_frame ?w1 (reconnect (updateStatus ''closed'' (?w1\<lparr>ws := None\<rparr>)))"
    using msg_frame_reconnect[of "updateStatus ''closed'' (?w1\<lparr>ws := None\<rparr>)"]
    by (auto intro: msg_frame_trans)
  then have "msg_frame ?w1 (ws_onclose i ?w1)" by (simp add: ws_onclose_def)
  with f1 have "msg_frame w (ws_onclose i ?w1)" by (rule msg_frame_trans)
  with f1 show ?thesis by (simp add: step_def WsClose Let_def)
next
  case (WsError i)
  have "msg_frame w (ws_onerror w)" by (simp add: ws_onerror_def)
  then show ?thesis by (simp add: step_def WsError)
next
  case (TimerFire t)
  show ?thesis
  proof (cases "timers w t")
    case None
    then show ?thesis by (simp add: step_def TimerFire)
  next
    case (Some k)
    show ?thesis
    proof (cases k)
      case (Timeout d)
      let ?w1 = "(clearTimer t w)\<lparr>isReconnecting := False\<rparr>"
      have f: "msg_frame w ?w1"
        by (simp add: msg_frame_def clearTimer_def)
      have i: "isMounted ?w1 = isMounted w" by (simp add: clearTimer_def)
      show ?thesis
      proof (cases "isMounted w")
        case True
        have "step e ev w = connect e ?w1"
          using Some Timeout True i by (simp add: step_def TimerFire reconnect_fire_def Let_def)
        with f have "\<exists>w1. msg_frame w w1 \<and> step e ev w = connect e w1" by blast
        then show ?thesis by blast
      next
        case False
        have "step e ev w = ?w1"
          using Some Timeout False i by (simp add: step_def TimerFire reconnect_fire_def Let_def)
        with f show ?thesis by simp
      qed
    next
      case (Interval d)
      have "msg_frame w (stalled_tick e w)"
        using msg_frame_reconnect[of "updateStatus ''stalled'' w"]
        by (simp add: stalled_tick_def Let_def)
      then show ?thesis using Some Interval by (simp add: step_def TimerFire)
    qed
  qed
next
  case (UpdateEnd b)
  let ?w1 = "w\<lparr>sbuffers := (sbuffers w)(b := (sbuffers w b)\<lparr>updating := False\<rparr>)\<rparr>"
  have f1: "msg_frame w ?w1" by (simp add: msg_frame_def)
  then have "msg_frame w (sbUpdateHandler_run e b ?w1)"
    using msg_frame_sink(3)[of ?w1 e b] by (rule msg_frame_trans)
  with f1 show ?thesis by (simp add: step_def UpdateEnd Let_def)
next
  case (SourceOpen m)
  then show ?thesis by simp
next
  case Stop
  have "msg_frame w (w\<lparr>isMounted := False\<rparr>)" by (simp add: msg_frame_def)
  then have "msg_frame w (stop w)"
    using msg_frame_cleanup[of "w\<lparr>isMounted := False\<rparr>"]
    by (auto simp: stop_def intro: msg_frame_trans)
  then show ?thesis by (simp add: step_def Stop)
qed

lemma msg_ok_step: "msg_ok w \<Longrightarrow> msg_ok (step e ev w)"
  using step_msg_cases[of w e ev]
  by (metis msg_ok_frame msg_ok_setupMSE msg_ok_connect msg_ok_sourceopen)

lemma next_ms_step: "next_ms (step e ev w) \<le> next_ms w + (if is_open ev then 1 else 0)"
proof -
  have a: "next_ms (setupMSE e w1) \<le> Suc (next_ms w1)" for w1
    by (simp add: setupMSE_def updateStatus_def updateError_def)
  have b: "next_ms (connect e w1) = next_ms w1" for w1
    by (simp add: connect_def updateStatus_def Let_def)
  have c: "next_ms (step e (SourceOpen m) w) = next_ms w" for m
    by (simp add: step_def on_sourceopen_def ws_send_def Let_def split: option.splits)
  have d: "\<not> is_open (SourceOpen m)" for m by (simp add: is_open_def)
  from step_msg_cases[of w e ev]
  consider (quiet) "msg_frame w (step e ev w)"
    | (newms) w1 where "is_open ev" "msg_frame w w1" "step e ev w = setupMSE e w1"
    | (newws) w1 where "msg_frame w w1" "step e ev w = connect e w1"
    | (srcopen) m where "ev = SourceOpen m"
    by blast
  then show ?thesis
  proof cases
    case quiet
    then show ?thesis by (simp add: msg_frame_def)
  next
    case newms
    then show ?thesis using a[of w1] by (simp add: msg_frame_def)
  next
    case newws
    then show ?thesis using b[of w1] by (simp add: msg_frame_def)
  next
    case srcopen
    then show ?thesis using c[of m] d[of m] by simp
  qed
qed

lemma msg_ok_run: "msg_ok w \<Longrightarrow> msg_ok (run evs w)"
  by (induction evs arbitrary: w) (auto simp: msg_ok_step)

lemma msg_ok_reachable: "reachable w \<Longrightarrow> msg_ok w"
proof -
  have i: "msg_ok (init s m)" for s m
    by (simp add: msg_ok_def init_def sent_count_def pending_sources_def)
  have "msg_ok ((init s m)\<lparr>isMounted := True, isReconnecting := False\<rparr>)" for s m
    by (rule msg_ok_frame[OF i[of s m]]) (simp add: msg_frame_def)
  then have "msg_ok (mount e (init s m))" for e s m
    using i by (simp add: mount_def msg_ok_connect)
  then show "reachable w \<Longrightarrow> msg_ok w"
    by (auto simp: reachable_def msg_ok_run)
qed

lemma next_ms_run: "next_ms (run evs w) \<le> next_ms w + opens evs"
proof (induction evs arbitrary: w)
  case Nil
  then show ?case by (simp add: opens_def)
next
  case (Cons a evs)
  obtain e ev where a: "a = (e, ev)" by (cases a)
  from Cons.IH[of "step e ev w"] next_ms_step[of e ev w] a
  show ?case by (auto simp: opens_def)
qed

lemma next_ms_mount_init [simp]: "next_ms (mount e (init s m)) = 0"
  by (simp add: mount_def init_def connect_def updateStatus_def Let_def)

lemma negotiated_world_counts:
  "sent_count negotiated_world = 1" "next_ms negotiated_world = 1"
  "opens [(readings 1000, WsOpen 0), (readings 1010, SourceOpen 0)] = 1"
  by (simp_all add: negotiated_world_def step_def mount_def connect_def ws_onopen_def
      setupMSE_def on_sourceopen_def ws_send_def updateStatus_def updateError_def init_def
      readings_def Let_def sent_count_def opens_def is_open_def)

lemma unsupported_world_facts:
  "statuses unsupported_world = [''connecting'', ''open'', ''error'']"
  "sent (sockets unsupported_world 0) = []" "ms unsupported_world = None"
  by (simp_all add: unsupported_world_def step_def mount_def connect_def ws_onopen_def
      setupMSE_def updateStatus_def updateError_def init_def readings_def Let_def)

section \<open>The claims\<close>

subsection \<open>C1: teardown silence\<close>

text \<open>C1. In every reachable world, the effect cleanup \<open>stop\<close> itself calls neither
  the status nor the error callback, and after it no sequence of host events
  (socket events, timer ticks, \<^verbatim>\<open>updateend\<close>, \<^verbatim>\<open>sourceopen\<close>) calls them: the two call
  logs stay as they were, no timer is armed, so that firing any timer handle runs no
  callback.\<close>

theorem C1_teardown_silence:
  assumes "reachable w"
  shows "statuses (stop w) = statuses w \<and> errors (stop w) = errors w
     \<and> statuses (run evs (stop w)) = statuses w
     \<and> errors (run evs (stop w)) = errors w
     \<and> (\<forall>t. timers (run evs (stop w)) t = None)
     \<and> (\<forall>e t. step e (TimerFire t) (run evs (stop w)) = run evs (stop w))"
proof -
  have s: "statuses (stop w) = statuses w \<and> errors (stop w) = errors w"
    by (simp add: stop_def)
  from silent_run[OF silent_stop[OF assms], of evs]
  have r: "silent (run evs (stop w))" "statuses (run evs (stop w)) = statuses (stop w)"
    "errors (run evs (stop w)) = errors (stop w)" by simp_all
  then have t: "\<forall>t. timers (run evs (stop w)) t = None" by (simp add: silent_def)
  then have "\<forall>e t. step e (TimerFire t) (run evs (stop w)) = run evs (stop w)"
    by (simp add: step_def)
  with s r t show ?thesis by simp
qed

theorem C1_teardown_silence_witness:
  "statuses (run [(readings 5000, TimerFire 1), (readings 5000, WsClose 0),
                  (readings 9000, WsMessage 0 (Json ''error'' ''stream not found'')),
                  (readings 9000, TimerFire 2)] (stop streaming_world))
     = [''connecting'', ''open'', ''streaming'']
   \<and> errors (run [(readings 5000, TimerFire 1), (readings 5000, WsClose 0),
                  (readings 9000, WsMessage 0 (Json ''error'' ''stream not found'')),
                  (readings 9000, TimerFire 2)] (stop streaming_world))
     = [None]
   \<and> timers streaming_world 1 = Some (Interval 2000)
   \<and> timers (stop streaming_world) 1 = None
   \<and> timers (step (readings 4000) (WsClose 0) streaming_world) 2 = Some (Timeout 2000)
   \<and> statuses (run [(readings 6000, TimerFire 2)]
         (stop (step (readings 4000) (WsClose 0) streaming_world)))
     = [''connecting'', ''open'', ''streaming'', ''closed'', ''reconnecting'']"
  using C1_teardown_silence [OF reachable_streaming_world,
      of "[(readings 5000, TimerFire 1), (readings 5000, WsClose 0),
           (readings 9000, WsMessage 0 (Json ''error'' ''stream not found'')),
           (readings 9000, TimerFire 2)]"]
    C1_teardown_silence [OF reachable_streaming_world, of "[]"]
    C1_teardown_silence [OF reachable_step [OF reachable_streaming_world],
      of "readings 4000" "WsClose 0" "[(readings 6000, TimerFire 2)]"]
    streaming_world_statuses streaming_world_errors streaming_world_timers
    close_schedules [of streaming_world 0 "readings 4000"]
    close_statuses [of streaming_world 0 "readings 4000"]
    streaming_world_ws streaming_world_mounted
  by simp

subsection \<open>C2: the segment buffer stays within its capacity and drops whole segments\<close>

text \<open>C2. In every reachable world (so after every enqueue and every flush, and after
  every other event) the arena has \<open>2 * 1024 * 1024\<close> bytes and the logical length is at
  most that. When a segment arrives while the SourceBuffer is updating or bytes are
  queued: if it does not fit, the buffer (arena cells and length) and the SourceBuffer
  calls are unchanged; if it fits, the buffered range is the old one followed by the
  segment.\<close>

theorem C2_buffer_bound_atomic_drop:
  assumes "reachable w"
  shows "data_length (buffer w) = 2 * 1024 * 1024
     \<and> buf_length (buffer w) \<le> 2 * 1024 * 1024
     \<and> buf_length (buffer (step e ev w)) \<le> 2 * 1024 * 1024
     \<and> (sb w = Some b \<and> (updating (sbuffers w b) \<or> 0 < buf_length (buffer w))
          \<and> data_length (buffer w) < buf_length (buffer w) + length d \<longrightarrow>
          buffer (appendData e d w) = buffer w
          \<and> sink_calls (appendData e d w) = sink_calls w)
     \<and> (sb w = Some b \<and> (updating (sbuffers w b) \<or> 0 < buf_length (buffer w))
          \<and> buf_length (buffer w) + length d \<le> data_length (buffer w) \<longrightarrow>
          queued (appendData e d w) = queued w @ d
          \<and> buf_length (buffer (appendData e d w)) = buf_length (buffer w) + length d
          \<and> sink_calls (appendData e d w) = sink_calls w)"
proof -
  from assms have a: "buffer_ok w" by (rule buffer_ok_reachable)
  from assms have b: "buffer_ok (step e ev w)"
    by (intro buffer_ok_reachable reachable_step)
  show ?thesis
    using a b appendData_queue[where w=w and b=b and e=e and d=d]
      queued_appendData[where w=w and b=b and e=e and d=d]
    by (auto simp: buffer_ok_def)
qed

theorem C2_buffer_bound_atomic_drop_witness:
  "data_length (buffer backlog_world) = 2097152
   \<and> buf_length (buffer backlog_world) = 2
   \<and> buffer (appendData (readings 1050) (replicate (2 * 1024 * 1024) 7) backlog_world)
       = buffer backlog_world
   \<and> queued (appendData (readings 1050) [6, 7] backlog_world) = [4, 5, 6, 7]
   \<and> buf_length (buffer (appendData (readings 1050) [6, 7] backlog_world)) = 4"
  using C2_buffer_bound_atomic_drop [OF reachable_backlog_world,
      where b = 0 and d = "replicate (2 * 1024 * 1024) 7" and e = "readings 1050"]
    C2_buffer_bound_atomic_drop [OF reachable_backlog_world,
      where b = 0 and d = "[6, 7]" and e = "readings 1050"]
    backlog_world_facts
  by simp

subsection \<open>C3: single-flight reconnect\<close>



subsection \<open>C4: order preservation\<close>

text \<open>C4. For every sequence of host events after mounting (segments, \<^verbatim>\<open>updateend\<close>
  signals, timers, socket events, in any interleaving and with any answers of the host),
  the payloads accepted by the SourceBuffers, in call order, are each the concatenation
  of a group of arrived segments, and the groups laid end to end form a subsequence of
  the arrival sequence: no segment is delivered before an earlier-arrived delivered
  segment. The same holds for the payloads accepted by any single SourceBuffer.\<close>

theorem C4_order_preservation:
  "(\<exists>dss. delivered (run evs (mount e (init s m))) = map concat dss
          \<and> subseq (concat dss) (arrivals evs))
   \<and> (\<forall>b. \<exists>dss. delivered_to b (run evs (mount e (init s m))) = map concat dss
          \<and> subseq (concat dss) (arrivals evs))"
proof -
  let ?w = "run evs (mount e (init s m))"
  from in_order_run[OF in_order_start, of evs e s m]
  obtain tds qs where
    h: "accepted ?w = map (\<lambda>(b, ds). (b, concat ds)) tds"
       "subseq (concat (map snd tds) @ qs) (arrivals evs)"
    unfolding in_order_def by auto
  from h(2) have all: "subseq (concat (map snd tds)) (arrivals evs)"
    by (metis list_emb_prefix subseq_order.order_refl subseq_order.trans)
  have one: "subseq (concat (map snd (filter (\<lambda>(b', ds). b' = b) tds))) (arrivals evs)" for b
    using subseq_concat_filter all by (rule subseq_order.trans)
  show ?thesis
    using delivered_groups[OF h(1)] all one by blast
qed

subsection \<open>C5: watchdog timing\<close>

text \<open>C5, as the code has it. A segment arriving at clock reading \<open>now e0\<close> sets
  \<open>lastDataTime\<close> to it, and a fired interval runs the stall check. When
  \<open>lastDataTime\<close> is not 0: a tick with \<open>now - lastDataTime \<le> 2000\<close> changes nothing; a
  tick with \<open>now - lastDataTime > 2000\<close> reports \<open>stalled\<close> and calls \<open>reconnect\<close> at
  once, which in a mounted world that is not reconnecting reports \<open>reconnecting\<close>, drops
  the socket and arms the 2000 ms timeout. (A \<open>lastDataTime\<close> of 0 means that no segment
  has arrived, and the tick returns.)\<close>

theorem C5_watchdog_timing:
  "lastDataTime (appendData e0 d w0) = now e0
   \<and> (timers w t = Some (Interval k) \<longrightarrow> step e (TimerFire t) w = stalled_tick e w)
   \<and> (lastDataTime w \<noteq> 0 \<and> now e - lastDataTime w \<le> 2000 \<longrightarrow> stalled_tick e w = w)
   \<and> (lastDataTime w \<noteq> 0 \<and> now e - lastDataTime w > 2000 \<longrightarrow>
        stalled_tick e w = reconnect (updateStatus ''stalled'' w))
   \<and> (lastDataTime w \<noteq> 0 \<and> now e - lastDataTime w > 2000 \<and> isMounted w \<and> \<not> isReconnecting w \<longrightarrow>
        statuses (stalled_tick e w) = statuses w @ [''stalled'', ''reconnecting'']
        \<and> timers (stalled_tick e w) (next_timer w) = Some (Timeout 2000)
        \<and> ws (stalled_tick e w) = None)"
  by (simp add: stalled_tick_cases step_def reconnect_started updateStatus_def)

theorem C5_watchdog_timing_witness:
  "statuses (step (readings 3030) (TimerFire 1) streaming_world)
     = [''connecting'', ''open'', ''streaming'']
   \<and> statuses (step (readings 3031) (TimerFire 1) streaming_world)
     = [''connecting'', ''open'', ''streaming'', ''stalled'', ''reconnecting'']
   \<and> timers (step (readings 3031) (TimerFire 1) streaming_world) 2 = Some (Timeout 2000)"
  using C5_watchdog_timing [of "readings 3030" "[]" streaming_world streaming_world 1 2000 "readings 3030"]
    C5_watchdog_timing [of "readings 3031" "[]" streaming_world streaming_world 1 2000 "readings 3031"]
    streaming_world_timers streaming_world_lastDataTime streaming_world_mounted
    streaming_world_statuses
  by auto

text \<open>With the last segment at clock reading 0, ticks at 2000, 4000 and 6000 leave the
  status at \<open>streaming\<close>: no stall is declared although 6000 ms passed without data.\<close>

theorem C5_watchdog_timing_counterexample:
  "lastDataTime epoch_world = 0
   \<and> timers epoch_world 1 = Some (Interval 2000)
   \<and> statuses epoch_world = [''connecting'', ''open'', ''streaming'']
   \<and> statuses (run [(readings 2000, TimerFire 1), (readings 4000, TimerFire 1),
                    (readings 6000, TimerFire 1)] epoch_world)
       = [''connecting'', ''open'', ''streaming'']"
  by (simp add: epoch_world_def step_def handler_defs init_def readings_def Let_def)

subsection \<open>C6: reconnect delay\<close>

text \<open>C6, as the code has it. In the second TSX variant every \<open>reconnect\<close> that
  schedules (mounted, not already reconnecting) arms its timeout with
  \<open>max (15000 - (now - connectTS)) 0\<close>, where \<open>connectTS\<close> is the clock reading at which
  \<open>connect\<close> last ran; this delay is never negative and is zero exactly when at least
  15000 ms passed since then. In \<^verbatim>\<open>MSEVideoStream.js\<close> every \<open>reconnect\<close> that
  schedules arms a fixed 2000 ms timeout.\<close>

theorem C6_reconnect_delay:
  "connectTS (connect_ts e0 w0) = now e0
   \<and> (isMounted w \<and> \<not> isReconnecting w \<longrightarrow>
        timers (reconnect_ts e w) (next_timer w)
          = Some (Timeout (max (RECONNECT_TIMEOUT - (now e - connectTS w)) 0))
        \<and> reconnectTimer (reconnect_ts e w) = Some (next_timer w))
   \<and> 0 \<le> max (RECONNECT_TIMEOUT - (now e - connectTS w)) 0
   \<and> (max (RECONNECT_TIMEOUT - (now e - connectTS w)) 0 = 0
        \<longleftrightarrow> RECONNECT_TIMEOUT \<le> now e - connectTS w)
   \<and> RECONNECT_TIMEOUT = 15000
   \<and> (isMounted v \<and> \<not> isReconnecting v \<longrightarrow>
        timers (reconnect v) (next_timer v) = Some (Timeout 2000)
        \<and> reconnectTimer (reconnect v) = Some (next_timer v))"
  by (auto simp: reconnect_ts_timer connect_ts_fields reconnect_started updateStatus_def
      RECONNECT_TIMEOUT_def)

theorem C6_reconnect_delay_witness:
  "timers (ws_onclose_ts (readings 4000) 0 (connect_ts (readings 1000) (init_ts ''/api/ws'' ''video''))) 1
     = Some (Timeout 12000)
   \<and> timers (ws_onclose_ts (readings 30000) 0 (connect_ts (readings 1000) (init_ts ''/api/ws'' ''video''))) 1
     = Some (Timeout 0)
   \<and> timers (reconnect streaming_world) 2 = Some (Timeout 2000)"
proof -
  let ?c = "connect_ts (readings 1000) (init_ts ''/api/ws'' ''video'')"
  let ?w = "updateStatus ''closed'' (?c\<lparr>ws := None\<rparr>)"
  have c: "ws ?c = Some 0" "isMounted ?w" "\<not> isReconnecting ?w" "next_timer ?w = 1"
    "connectTS ?w = 1000"
    by (simp_all add: connect_ts_fields init_ts_fields updateStatus_def readings_def)
  have a: "ws_onclose_ts e 0 ?c = reconnect_ts e ?w" for e
    using c(1) by (simp add: ws_onclose_ts_def)
  show ?thesis
    using C6_reconnect_delay [of "readings 1000" "init_ts ''/api/ws'' ''video''" ?w
        "readings 4000" streaming_world]
      C6_reconnect_delay [of "readings 1000" "init_ts ''/api/ws'' ''video''" ?w
        "readings 30000" streaming_world]
      streaming_world_mounted c
    by (simp add: a)
qed

text \<open>In \<^verbatim>\<open>MSEVideoStream.js\<close> a close 3000 ms after the socket opened schedules
  2000 ms, not \<open>max (15000 - 3000) 0 = 12000\<close>; a close after 99000 ms schedules
  2000 ms as well, not 0.\<close>

theorem C6_reconnect_delay_counterexample:
  "timers (step (readings 4000) (WsClose 0) streaming_world) 2 = Some (Timeout 2000)
   \<and> max (RECONNECT_TIMEOUT - (4000 - 1000)) 0 = 12000
   \<and> timers (step (readings 100000) (WsClose 0) streaming_world) 2 = Some (Timeout 2000)
   \<and> max (RECONNECT_TIMEOUT - (100000 - 1000)) 0 = 0"
  using close_schedules [of streaming_world 0 "readings 4000"]
    close_schedules [of streaming_world 0 "readings 100000"]
    streaming_world_ws streaming_world_mounted
  by (simp add: RECONNECT_TIMEOUT_def)

subsection \<open>C7: the flush contract\<close>

text \<open>C7, as the code has it. When the SourceBuffer signals \<^verbatim>\<open>updateend\<close>, its listener is
  attached and the buffered length is positive, the whole buffered range is handed to
  \<^verbatim>\<open>appendBuffer\<close> in one call, and that is the only \<^verbatim>\<open>appendBuffer\<close> call of the run,
  whatever its outcome. When the call returns, the logical length is 0. When it throws
  \<^verbatim>\<open>QuotaExceededError\<close>, the buffer is unchanged and \<open>trimBuffer\<close> runs, which asks
  the current SourceBuffer to remove the range from the buffered start to the playback
  position minus 5 when the playback position minus the buffered start exceeds 10, both
  differences as the host's double arithmetic computes them. There is no retry of its own and
  no bound of one: the range is appended again at every later \<^verbatim>\<open>updateend\<close>, for as
  long as the append throws.\<close>

theorem C7_flush_contract:
  "(updateend_listener (sbuffers w b) \<and> 0 < buf_length (buffer w) \<longrightarrow>
      append_calls (sink_calls (step e (UpdateEnd b) w))
        = append_calls (sink_calls w) @ [(b, queued w, append_throws e)]
      \<and> (append_throws e = None \<longrightarrow> buf_length (buffer (step e (UpdateEnd b) w)) = 0)
      \<and> (append_throws e = Some ''QuotaExceededError'' \<longrightarrow>
           buffer (step e (UpdateEnd b) w) = buffer w
           \<and> (sb w = Some b \<and> buffered e = Some ((s, f) # rs) \<and> currentTime e = Some ct
                \<and> double_minus e ct s > 10 \<longrightarrow>
                (b, Remove s (double_minus e ct 5),
                   if remove_throws e then Some ''Error'' else None)
                  \<in> set (sink_calls (step e (UpdateEnd b) w))))
      \<and> ((\<forall>e' \<in> set es. append_throws e' \<noteq> None) \<longrightarrow>
           append_calls (sink_calls (run (map (\<lambda>e'. (e', UpdateEnd b)) es) w))
             = append_calls (sink_calls w) @ map (\<lambda>e'. (b, queued w, append_throws e')) es
           \<and> buffer (run (map (\<lambda>e'. (e', UpdateEnd b)) es) w) = buffer w))"
  using flush_step(1,2)[of w b e] flush_quota_trims[of w b e s f rs ct] flush_retries[of w b es]
  by simp

theorem C7_flush_contract_witness:
  "append_calls (sink_calls (step (readings 1100) (UpdateEnd 0) backlog_world))
     = [(0, [1, 2, 3], None), (0, [4, 5], None)]
   \<and> buf_length (buffer (step (readings 1100) (UpdateEnd 0) backlog_world)) = 0
   \<and> buffer (step (quota_readings 1100) (UpdateEnd 0) backlog_world) = buffer backlog_world
   \<and> (0, Remove 0 15, None) \<in> set (sink_calls (step (quota_readings 1100) (UpdateEnd 0) backlog_world))"
  using C7_flush_contract [of backlog_world 0 "readings 1100" 0 30 "[]" 20 "[]"]
    C7_flush_contract [of backlog_world 0 "quota_readings 1100" 0 30 "[]" 20 "[]"]
    backlog_world_facts
  by simp

text \<open>After the first rejection the same range is appended twice more, at the next two
  \<^verbatim>\<open>updateend\<close> events: two retries, not exactly one.\<close>

theorem C7_flush_contract_counterexample:
  "append_calls (sink_calls
     (run [(quota_readings 1100, UpdateEnd 0), (quota_readings 1200, UpdateEnd 0),
           (quota_readings 1300, UpdateEnd 0)] backlog_world))
     = [(0, [1, 2, 3], None), (0, [4, 5], Some ''QuotaExceededError''),
        (0, [4, 5], Some ''QuotaExceededError''), (0, [4, 5], Some ''QuotaExceededError'')]"
  using flush_retries [of backlog_world 0
      "[quota_readings 1100, quota_readings 1200, quota_readings 1300]"]
    backlog_world_facts
  by simp

subsection \<open>C8: the message that offers the codecs\<close>

text \<open>C8, as the code has it. The accepted list is the candidate list filtered, in
  candidate order, by the requested media kind (\<open>video\<close> when the identifier contains
  \<open>vc1\<close>, else \<open>audio\<close>; the kind must occur in the \<open>media\<close> prop) and by the support
  probe, joined with commas. Opening the socket sends nothing itself: it creates one
  MediaSource with a once-only \<^verbatim>\<open>sourceopen\<close> listener, provided a MediaSource class
  exists. When that listener runs it sends, on the socket that is current then, if there
  is one, the single object \<open>{type: "mse", value: list}\<close>; a second \<^verbatim>\<open>sourceopen\<close> on the
  same MediaSource does nothing. In every reachable world all messages sent have that
  form and number at most the MediaSources created, and after any run from mounting the
  MediaSources created number at most the open events of the run.\<close>

theorem C8_negotiation_message:
  "getSupportedCodecs med isSupported
     = join (filter (\<lambda>c. includes_str med (kind_of c) \<and> isSupported (mime c)) codecsRef)
   \<and> (ws w = Some i \<longrightarrow>
        sent (sockets (on_sourceopen e w) i)
          = sent (sockets w i)
            @ [[(''type'', ''mse''), (''value'', getSupportedCodecs (media w) (isTypeSupported e))]]
        \<and> (\<forall>j. j \<noteq> i \<longrightarrow> sockets (on_sourceopen e w) j = sockets w j))
   \<and> (ws w = None \<longrightarrow> on_sourceopen e w = w)
   \<and> (sourceopen_listener (sources w m) \<longrightarrow>
        step e (SourceOpen m) w
          = on_sourceopen e (w\<lparr>sources := (sources w)(m := (sources w m)\<lparr>sourceopen_listener := False\<rparr>)\<rparr>))
   \<and> (\<not> sourceopen_listener (sources w m) \<longrightarrow> step e (SourceOpen m) w = w)
   \<and> step e' (SourceOpen m) (step e (SourceOpen m) w) = step e (SourceOpen m) w
   \<and> sockets (ws_onopen e w) = sockets w
   \<and> (has_MediaSource e \<longrightarrow>
        ms (ws_onopen e w) = Some (next_ms w)
        \<and> sourceopen_listener (sources (ws_onopen e w) (next_ms w)))
   \<and> (\<not> has_MediaSource e \<longrightarrow> sources (ws_onopen e w) = sources w)
   \<and> (reachable w \<longrightarrow>
        sent_count w \<le> next_ms w
        \<and> (\<forall>i. next_ws w \<le> i \<longrightarrow> sent (sockets w i) = [])
        \<and> (\<forall>i. \<forall>msg \<in> set (sent (sockets w i)).
              \<exists>v. msg = [(''type'', ''mse''), (''value'', v)]))
   \<and> sent_count (run evs (mount e0 (init s0 m0))) \<le> next_ms (run evs (mount e0 (init s0 m0)))
   \<and> next_ms (run evs (mount e0 (init s0 m0))) \<le> opens evs"
proof -
  have bound: "reachable w \<longrightarrow>
        sent_count w \<le> next_ms w
        \<and> (\<forall>i. next_ws w \<le> i \<longrightarrow> sent (sockets w i) = [])
        \<and> (\<forall>i. \<forall>msg \<in> set (sent (sockets w i)).
              \<exists>v. msg = [(''type'', ''mse''), (''value'', v)])"
    using msg_ok_reachable[of w] unfolding msg_ok_def by auto
  have "reachable (run evs (mount e0 (init s0 m0)))"
    unfolding reachable_def by blast
  then have "msg_ok (run evs (mount e0 (init s0 m0)))" by (rule msg_ok_reachable)
  then have total: "sent_count (run evs (mount e0 (init s0 m0)))
      \<le> next_ms (run evs (mount e0 (init s0 m0)))"
    unfolding msg_ok_def by simp
  have created: "next_ms (run evs (mount e0 (init s0 m0))) \<le> opens evs"
    using next_ms_run[of evs "mount e0 (init s0 m0)"] by simp
  have once: "step e' (SourceOpen m) (step e (SourceOpen m) w) = step e (SourceOpen m) w"
    by (rule sourceopen_once)
  have sel: "getSupportedCodecs med isSupported
     = join (filter (\<lambda>c. includes_str med (kind_of c) \<and> isSupported (mime c)) codecsRef)"
    by (rule getSupportedCodecs_filter)
  have rest: "(ws w = Some i \<longrightarrow>
        sent (sockets (on_sourceopen e w) i)
          = sent (sockets w i)
            @ [[(''type'', ''mse''), (''value'', getSupportedCodecs (media w) (isTypeSupported e))]]
        \<and> (\<forall>j. j \<noteq> i \<longrightarrow> sockets (on_sourceopen e w) j = sockets w j))
   \<and> (ws w = None \<longrightarrow> on_sourceopen e w = w)
   \<and> (sourceopen_listener (sources w m) \<longrightarrow>
        step e (SourceOpen m) w
          = on_sourceopen e (w\<lparr>sources := (sources w)(m := (sources w m)\<lparr>sourceopen_listener := False\<rparr>)\<rparr>))
   \<and> (\<not> sourceopen_listener (sources w m) \<longrightarrow> step e (SourceOpen m) w = w)
   \<and> sockets (ws_onopen e w) = sockets w
   \<and> (has_MediaSource e \<longrightarrow>
        ms (ws_onopen e w) = Some (next_ms w)
        \<and> sourceopen_listener (sources (ws_onopen e w) (next_ms w)))
   \<and> (\<not> has_MediaSource e \<longrightarrow> sources (ws_onopen e w) = sources w)"
    by (simp add: step_def on_sourceopen_def ws_send_def ws_onopen_def setupMSE_def
        updateStatus_def updateError_def Let_def)
  from once sel rest bound total created show ?thesis by blast
qed

theorem C8_negotiation_message_witness:
  "getSupportedCodecs ''audio'' (\<lambda>t. t \<noteq> mime ''flac'') = ''mp4a.40.2,mp4a.40.5,opus''
   \<and> sent (sockets negotiated_world 0)
       = [[(''type'', ''mse''),
           (''value'', ''avc1.640029,avc1.64002A,avc1.640033,hvc1.1.6.L153.B0,mp4a.40.2,mp4a.40.5,flac,opus'')]]
   \<and> step (readings 1100) (SourceOpen 0) negotiated_world = negotiated_world
   \<and> sent_count negotiated_world = 1
   \<and> next_ms negotiated_world = 1
   \<and> opens [(readings 1000, WsOpen 0), (readings 1010, SourceOpen 0)] = 1"
  using C8_negotiation_message [of "''audio''" "\<lambda>t. t \<noteq> mime ''flac''"
      "run [(readings 1000, WsOpen 0)]
         (mount (readings 900) (init ''ws://localhost:1984/api/ws?src=cam'' ''video,audio''))"
      0 "readings 1010" 0 "readings 1100"
      "[(readings 1000, WsOpen 0), (readings 1010, SourceOpen 0)]" "readings 900"
      "''ws://localhost:1984/api/ws?src=cam''" "''video,audio''"]
    codecs_audio_only negotiated_world_sent codecs_all negotiated_world_counts
  by (simp add: negotiated_world_def)

text \<open>The object sent is \<open>{type: "mse", value: ...}\<close>, not
  \<open>{type: "negotiate", codecs: ...}\<close>; and on a host without a MediaSource class the
  session opens, reports an error, and sends nothing.\<close>

theorem C8_negotiation_message_counterexample:
  "sent (sockets negotiated_world 0)
     = [[(''type'', ''mse''),
         (''value'', ''avc1.640029,avc1.64002A,avc1.640033,hvc1.1.6.L153.B0,mp4a.40.2,mp4a.40.5,flac,opus'')]]
   \<and> sent (sockets negotiated_world 0)
     \<noteq> [[(''type'', ''negotiate''),
         (''codecs'', ''avc1.640029,avc1.64002A,avc1.640033,hvc1.1.6.L153.B0,mp4a.40.2,mp4a.40.5,flac,opus'')]]
   \<and> statuses unsupported_world = [''connecting'', ''open'', ''error'']
   \<and> sent (sockets unsupported_world 0) = []
   \<and> ms unsupported_world = None"
  by (simp add: negotiated_world_sent codecs_all unsupported_world_facts)

subsection \<open>C9: URL normalization\<close>

text \<open>C9, as the code has it. \<^verbatim>\<open>connect\<close> opens the socket at the normalised address.
  The test is on the four characters \<open>http\<close>, in lower case, not on the scheme: an
  address that begins with them has them replaced by \<open>ws\<close>, so \<open>http://\<close> becomes
  \<open>ws://\<close> and \<open>https://\<close> becomes \<open>wss://\<close>; an address that begins with \<open>/\<close> is
  appended to the page origin whose first four characters are replaced by \<open>ws\<close>;
  every other address is used verbatim.\<close>

theorem C9_url_normalization:
  "normalize_url orig (''http://'' @ r) = ''ws://'' @ r
   \<and> normalize_url orig (''https://'' @ r) = ''wss://'' @ r
   \<and> (startsWith u ''http'' \<longrightarrow> normalize_url orig u = ''ws'' @ drop 4 u)
   \<and> (startsWith u ''/'' \<longrightarrow> normalize_url orig u = ''ws'' @ drop 4 orig @ u)
   \<and> (startsWith u ''/'' \<longrightarrow> normalize_url (''http'' @ h) u = ''ws'' @ h @ u)
   \<and> (\<not> startsWith u ''http'' \<and> \<not> startsWith u ''/'' \<longrightarrow> normalize_url orig u = u)
   \<and> (\<not> websocket_throws e \<longrightarrow>
        url (sockets (connect e w) (next_ws w)) = normalize_url (origin e) (src w))"
  by (auto simp: normalize_url_def startsWith_def substring_def connect_def updateStatus_def
      Let_def prefix_def)

theorem C9_url_normalization_witness:
  "normalize_url ''http://localhost:3000'' ''https://cam.example/api/ws?src=1''
     = ''wss://cam.example/api/ws?src=1''
   \<and> normalize_url ''https://localhost:3000'' ''/api/ws?src=1''
     = ''wss://localhost:3000/api/ws?src=1''
   \<and> normalize_url ''https://localhost:3000'' ''ws://localhost:1984/api/ws?src=camera1''
     = ''ws://localhost:1984/api/ws?src=camera1''
   \<and> url (sockets (mount (readings 0) (init ''/api/ws?src=1'' ''video'')) 0)
     = ''ws://localhost/api/ws?src=1''"
  using C9_url_normalization [of "''http://localhost:3000''" "''cam.example/api/ws?src=1''"
      "''ws://localhost:1984/api/ws?src=camera1''" "''s://localhost:3000''" "readings 0"
      "(init ''/api/ws?src=1'' ''video'')\<lparr>isMounted := True, isReconnecting := False\<rparr>"]
    C9_url_normalization [of "''https://localhost:3000''" "[]" "''/api/ws?src=1''"
      "''s://localhost:3000''"]
  by (simp add: startsWith_def mount_def init_def readings_def normalize_url_def substring_def)

text \<open>Addresses that do not begin with an HTTP(S) scheme or with \<open>/\<close> and yet are
  rewritten, and an address with the HTTP scheme in upper case that is left as it is.\<close>

theorem C9_url_normalization_counterexample:
  "normalize_url ''http://localhost:3000'' ''httpfoo://h/p'' = ''wsfoo://h/p''
   \<and> normalize_url ''http://localhost:3000'' ''httpfoo://h/p'' \<noteq> ''httpfoo://h/p''
   \<and> normalize_url ''http://localhost:3000'' ''httpdocs/stream'' = ''wsdocs/stream''
   \<and> normalize_url ''http://localhost:3000'' ''httpdocs/stream'' \<noteq> ''httpdocs/stream''
   \<and> normalize_url ''http://localhost:3000'' ''HTTP://CAM/x'' = ''HTTP://CAM/x''
   \<and> normalize_url ''http://localhost:3000'' ''HTTP://CAM/x'' \<noteq> ''WS://CAM/x''
   \<and> normalize_url ''http://localhost:3000'' ''HTTP://CAM/x'' \<noteq> ''ws://CAM/x''"
  by (simp add: normalize_url_def startsWith_def substring_def)

subsection \<open>C10: a failed flush keeps the queue\<close>

text \<open>C10. When the SourceBuffer signals \<^verbatim>\<open>updateend\<close> and \<^verbatim>\<open>appendBuffer\<close> throws,
  the segment buffer (arena, capacity and logical length) is unchanged. The logical
  length goes from positive to 0 only when the listener ran and the append of the whole
  buffered range returned without throwing. After a throwing flush the same range is
  appended again at the next \<^verbatim>\<open>updateend\<close>.\<close>

theorem C10_flush_failure_atomicity:
  "(append_throws e = Some name \<longrightarrow> buffer (step e (UpdateEnd b) w) = buffer w)
   \<and> (0 < buf_length (buffer w) \<and> buf_length (buffer (step e (UpdateEnd b) w)) = 0 \<longrightarrow>
        append_throws e = None \<and> updateend_listener (sbuffers w b)
        \<and> append_calls (sink_calls (step e (UpdateEnd b) w))
            = append_calls (sink_calls w) @ [(b, queued w, None)])
   \<and> (append_throws e = Some name \<and> 0 < buf_length (buffer w)
        \<and> updateend_listener (sbuffers w b) \<longrightarrow>
        append_calls (sink_calls (step e' (UpdateEnd b) (step e (UpdateEnd b) w)))
          = append_calls (sink_calls w)
            @ [(b, queued w, Some name), (b, queued w, append_throws e')])"
proof -
  have a: "append_throws e = Some name \<longrightarrow> buffer (step e (UpdateEnd b) w) = buffer w"
    using flush_step(2)[of w b e] no_flush_step(2)[of w b e]
    by (cases "updateend_listener (sbuffers w b) \<and> 0 < buf_length (buffer w)") auto
  have b: "0 < buf_length (buffer w) \<and> buf_length (buffer (step e (UpdateEnd b) w)) = 0 \<longrightarrow>
        append_throws e = None \<and> updateend_listener (sbuffers w b)
        \<and> append_calls (sink_calls (step e (UpdateEnd b) w))
            = append_calls (sink_calls w) @ [(b, queued w, None)]"
    using flush_step(1,2)[of w b e] no_flush_step(2)[of w b e]
    by (cases "updateend_listener (sbuffers w b)") (auto split: if_splits)
  have c: "append_throws e = Some name \<and> 0 < buf_length (buffer w)
        \<and> updateend_listener (sbuffers w b) \<longrightarrow>
        append_calls (sink_calls (step e' (UpdateEnd b) (step e (UpdateEnd b) w)))
          = append_calls (sink_calls w)
            @ [(b, queued w, Some name), (b, queued w, append_throws e')]"
    using flush_retries[of w b "[e, e']"] flush_step[of w b e]
      flush_step(1)[of "step e (UpdateEnd b) w" b e']
    by (auto simp: queued_def)
  from a b c show ?thesis by blast
qed

theorem C10_flush_failure_atomicity_witness:
  "buffer (step (quota_readings 1100) (UpdateEnd 0) backlog_world) = buffer backlog_world
   \<and> buf_length (buffer backlog_world) = 2
   \<and> append_calls (sink_calls
        (step (readings 1200) (UpdateEnd 0) (step (quota_readings 1100) (UpdateEnd 0) backlog_world)))
      = [(0, [1, 2, 3], None), (0, [4, 5], Some ''QuotaExceededError''), (0, [4, 5], None)]"
  using C10_flush_failure_atomicity [of "quota_readings 1100" "''QuotaExceededError''" 0
      backlog_world "readings 1200"]
    backlog_world_facts
  by simp

end
